theory Spec2Isabelle
  imports Main "HOL-Library.Word" "HOL-Library.Monad_Syntax"
begin

unbundle bit_operations_syntax

section \<open>Buffers, machine integers and results\<close>

text \<open>
  A C buffer \<^verbatim>\<open>const uint8_t *data, size_t len\<close> is a list of bytes; its length
  parameter is the length of the list. \<^verbatim>\<open>size_t\<close> offsets are natural numbers: an
  object is smaller than \<open>2 ^ 63\<close> bytes and every offset the code forms is at most the buffer
  length plus a few 16-bit fields, so no \<^verbatim>\<open>size_t\<close> addition wraps.

  Every read of the buffer goes through \<open>rd\<close>. An execution is a value of type
  \<open>'a option\<close>: \<open>None\<close> means that the C execution has left defined behaviour (an
  access outside the buffer, or a signed overflow); \<open>Some r\<close> means that it returned \<open>r\<close>.
\<close>

type_synonym byte = "8 word"
type_synonym u16 = "16 word"
type_synonym u32 = "32 word"
type_synonym u64 = "64 word"

text \<open>
  What a function returns to its caller: \<open>Fail\<close> is the failure code of the function
  (\<^verbatim>\<open>0\<close>, or \<^verbatim>\<open>-1\<close> for the functions that return \<^verbatim>\<open>ssize_t\<close>); \<open>Ok x\<close> is the
  success code together with the values written through the output pointers. Output pointers
  are only meaningful on success, so \<open>Fail\<close> carries none.
\<close>

datatype 'a ret = Fail | Ok 'a

definition rd :: "byte list \<Rightarrow> nat \<Rightarrow> byte option" where
  "rd data i = (if i < length data then Some (data ! i) else None)"

text \<open>\<^verbatim>\<open>((uint16_t)hi << 8) | lo\<close>\<close>

definition be16 :: "byte \<Rightarrow> byte \<Rightarrow> u16" where
  "be16 hi lo = push_bit 8 (ucast hi) OR ucast lo"

definition rd16 :: "byte list \<Rightarrow> nat \<Rightarrow> u16 option" where
  "rd16 data i = do { hi \<leftarrow> rd data i; lo \<leftarrow> rd data (i + 1); Some (be16 hi lo) }"

section \<open>CTLSKeyDerivation.c: cipher-suite parameters\<close>

datatype CCHmacAlgorithm = kCCHmacAlgSHA256 | kCCHmacAlgSHA384

definition TLS_AES_128_GCM_SHA256 :: u16 where
  "TLS_AES_128_GCM_SHA256 = 0x1301"

definition TLS_AES_256_GCM_SHA384 :: u16 where
  "TLS_AES_256_GCM_SHA384 = 0x1302"

text \<open>\<open>get_suite_params cs\<close> is \<open>(alg, hash_len, key_len)\<close>.\<close>

definition get_suite_params :: "u16 \<Rightarrow> CCHmacAlgorithm \<times> nat \<times> nat" where
  "get_suite_params cs =
     (if cs = TLS_AES_256_GCM_SHA384 then (kCCHmacAlgSHA384, 48, 32)
      else (kCCHmacAlgSHA256, 32, 16))"

text \<open>
  The CommonCrypto primitives are outside this code; the key schedule is a function of them.
  \<open>CCHmac P alg key data\<close> is the MAC that \<^verbatim>\<open>CCHmac(alg, key, keyLength, data, dataLength, out)\<close>
  writes, and also what \<^verbatim>\<open>CCHmacInit\<close>, \<^verbatim>\<open>CCHmacUpdate\<close>... \<^verbatim>\<open>CCHmacFinal\<close> write for
  the concatenation of the updates; \<open>CC_SHA256 P data\<close> and \<open>CC_SHA384 P data\<close> are the
  digests. \<open>crypto_ok\<close> is their contract on output sizes.
\<close>

record crypto =
  CCHmac :: "CCHmacAlgorithm \<Rightarrow> byte list \<Rightarrow> byte list \<Rightarrow> byte list"
  CC_SHA256 :: "byte list \<Rightarrow> byte list"
  CC_SHA384 :: "byte list \<Rightarrow> byte list"

definition digest_length :: "CCHmacAlgorithm \<Rightarrow> nat" where
  "digest_length alg = (case alg of kCCHmacAlgSHA256 \<Rightarrow> 32 | kCCHmacAlgSHA384 \<Rightarrow> 48)"

definition crypto_ok :: "crypto \<Rightarrow> bool" where
  "crypto_ok P \<longleftrightarrow>
     (\<forall>alg key data. length (CCHmac P alg key data) = digest_length alg)
     \<and> (\<forall>data. length (CC_SHA256 P data) = 32)
     \<and> (\<forall>data. length (CC_SHA384 P data) = 48)"

section \<open>CTLSKeyDerivation.c: HKDF and the handshake keys\<close>

text \<open>
  A pair \<^verbatim>\<open>(pointer, n)\<close> passed to a primitive is \<open>take n\<close> of the buffer the pointer
  refers to. The \<^verbatim>\<open>int\<close> lengths (\<open>hash_len\<close>, \<open>key_len\<close>, \<open>length\<close>) are natural numbers:
  every call site passes 12, 16, 32 or 48.
\<close>

text \<open>
  \<open>sha_hash\<close> passes its \<^verbatim>\<open>size_t len\<close> to the digest as \<^verbatim>\<open>(CC_LONG)len\<close>, a 32-bit
  unsigned length: the digest is taken over the first \<open>len mod 2^32\<close> bytes.
\<close>

definition CC_LONG_of :: "nat \<Rightarrow> nat" where
  "CC_LONG_of len = unat (word_of_nat len :: 32 word)"

definition sha_hash :: "crypto \<Rightarrow> u16 \<Rightarrow> byte list \<Rightarrow> byte list" where
  "sha_hash P cs data =
     (if cs = TLS_AES_256_GCM_SHA384 then CC_SHA384 P (take (CC_LONG_of (length data)) data)
      else CC_SHA256 P (take (CC_LONG_of (length data)) data))"

definition hkdf_extract ::
  "crypto \<Rightarrow> CCHmacAlgorithm \<Rightarrow> nat \<Rightarrow> byte list \<Rightarrow> byte list \<Rightarrow> byte list" where
  "hkdf_extract P alg hash_len salt ikm =
     (if length salt = 0 then CCHmac P alg (take hash_len (replicate 48 0)) ikm
      else CCHmac P alg salt ikm)"

text \<open>
  The loop of \<open>hkdf_expand\<close>. Its state is the block buffer \<open>t\<close> with \<open>t_len\<close>, \<open>offset\<close>,
  the 8-bit \<open>counter\<close> (which wraps) and \<open>out\<close>, the bytes written to the output so far. With
  \<open>hash_len = 0\<close> the loop never advances: the function is partial, and \<open>None\<close> is an
  execution that does not return. The parameter \<^verbatim>\<open>length\<close> of the source is \<open>len\<close> here.
\<close>

partial_function (option) hkdf_expand_loop ::
  "crypto \<Rightarrow> CCHmacAlgorithm \<Rightarrow> nat \<Rightarrow> byte list \<Rightarrow> byte list \<Rightarrow> nat
     \<Rightarrow> byte list \<Rightarrow> nat \<Rightarrow> nat \<Rightarrow> byte \<Rightarrow> byte list \<Rightarrow> byte list option" where
  "hkdf_expand_loop P alg hash_len prk info len t t_len offset counter out =
     (if offset < len then
        (let t1 = CCHmac P alg prk ((if t_len > 0 then take t_len t else []) @ info @ [counter]);
             to_copy = (if offset + hash_len > len then len - offset else hash_len)
         in hkdf_expand_loop P alg hash_len prk info len t1 hash_len (offset + to_copy)
              (counter + 1) (out @ take to_copy t1))
      else Some out)"

declare hkdf_expand_loop.simps [code]

definition hkdf_expand ::
  "crypto \<Rightarrow> CCHmacAlgorithm \<Rightarrow> nat \<Rightarrow> byte list \<Rightarrow> byte list \<Rightarrow> nat \<Rightarrow> byte list option" where
  "hkdf_expand P alg hash_len prk info len =
     hkdf_expand_loop P alg hash_len prk info len [] 0 0 1 []"

definition bytes_of :: "string \<Rightarrow> byte list" where
  "bytes_of s = map of_char s"

text \<open>
  \<open>hkdf_expand_label\<close> builds \<open>info\<close> in a 256-byte stack buffer; an \<open>info\<close> that does
  not fit is a write outside it (\<open>None\<close>).
\<close>

definition hkdf_expand_label ::
  "crypto \<Rightarrow> CCHmacAlgorithm \<Rightarrow> nat \<Rightarrow> byte list \<Rightarrow> string \<Rightarrow> byte list \<Rightarrow> nat
     \<Rightarrow> byte list option" where
  "hkdf_expand_label P alg hash_len secret label context len =
     (let label_len = length label;
          full_label_len = 6 + label_len;
          context_len = length context;
          info = [of_nat (len div 256), of_nat (len mod 256), of_nat full_label_len]
                 @ bytes_of ''tls13 '' @ bytes_of label
                 @ [of_nat context_len] @ (if context_len > 0 then context else [])
      in if length info > 256 then None
         else hkdf_expand P alg hash_len secret info len)"

definition derive_secret ::
  "crypto \<Rightarrow> u16 \<Rightarrow> CCHmacAlgorithm \<Rightarrow> nat \<Rightarrow> byte list \<Rightarrow> string \<Rightarrow> byte list
     \<Rightarrow> byte list option" where
  "derive_secret P cs alg hash_len secret label messages =
     (let hash = sha_hash P cs messages
      in hkdf_expand_label P alg hash_len secret label (take hash_len hash) hash_len)"

record handshake_keys =
  hs_secret :: "byte list"
  client_key :: "byte list"
  client_iv :: "byte list"
  server_key :: "byte list"
  server_iv :: "byte list"
  client_traffic_secret :: "byte list"

definition tls13_derive_handshake_keys ::
  "crypto \<Rightarrow> u16 \<Rightarrow> byte list \<Rightarrow> byte list \<Rightarrow> handshake_keys option" where
  "tls13_derive_handshake_keys P cipher_suite shared_secret transcript =
     (case get_suite_params cipher_suite of (alg, hash_len, key_len) \<Rightarrow>
        let zero_ikm = replicate 48 (0 :: byte);
            early_secret = hkdf_extract P alg hash_len [] (take hash_len zero_ikm)
        in do {
          derived_early \<leftarrow>
            derive_secret P cipher_suite alg hash_len (take hash_len early_secret) ''derived'' [];
          let out_hs_secret = hkdf_extract P alg hash_len (take hash_len derived_early) shared_secret;
          out_client_traffic_secret \<leftarrow>
            derive_secret P cipher_suite alg hash_len (take hash_len out_hs_secret)
              ''c hs traffic'' transcript;
          out_client_key \<leftarrow>
            hkdf_expand_label P alg hash_len (take hash_len out_client_traffic_secret)
              ''key'' [] key_len;
          out_client_iv \<leftarrow>
            hkdf_expand_label P alg hash_len (take hash_len out_client_traffic_secret)
              ''iv'' [] 12;
          server_hts \<leftarrow>
            derive_secret P cipher_suite alg hash_len (take hash_len out_hs_secret)
              ''s hs traffic'' transcript;
          out_server_key \<leftarrow>
            hkdf_expand_label P alg hash_len (take hash_len server_hts) ''key'' [] key_len;
          out_server_iv \<leftarrow>
            hkdf_expand_label P alg hash_len (take hash_len server_hts) ''iv'' [] 12;
          Some \<lparr>hs_secret = out_hs_secret, client_key = out_client_key,
                client_iv = out_client_iv, server_key = out_server_key,
                server_iv = out_server_iv, client_traffic_secret = out_client_traffic_secret\<rparr>
        })"

text \<open>
  The key schedule in the words of the specification. \<open>hkdf_T P alg prk info i\<close> is the block
  \<open>T(i) = HMAC(prk, T(i-1) || info || i)\<close> with \<open>T(0)\<close> empty; HKDF-Expand is the
  concatenation \<open>T(1) || T(2) || ...\<close> truncated to the requested length.
\<close>

fun hkdf_T :: "crypto \<Rightarrow> CCHmacAlgorithm \<Rightarrow> byte list \<Rightarrow> byte list \<Rightarrow> nat \<Rightarrow> byte list" where
  "hkdf_T P alg prk info 0 = []"
| "hkdf_T P alg prk info (Suc i) =
     CCHmac P alg prk (hkdf_T P alg prk info i @ info @ [of_nat (Suc i)])"

definition HKDF_Expand ::
  "crypto \<Rightarrow> CCHmacAlgorithm \<Rightarrow> byte list \<Rightarrow> byte list \<Rightarrow> nat \<Rightarrow> byte list" where
  "HKDF_Expand P alg prk info L =
     take L (concat (map (hkdf_T P alg prk info)
       [1 ..< Suc ((L + digest_length alg - 1) div digest_length alg)]))"

text \<open>The first \<open>n\<close> blocks \<open>T(1) || ... || T(n)\<close>.\<close>

definition hkdf_blocks ::
  "crypto \<Rightarrow> CCHmacAlgorithm \<Rightarrow> byte list \<Rightarrow> byte list \<Rightarrow> nat \<Rightarrow> byte list" where
  "hkdf_blocks P alg prk info n = concat (map (hkdf_T P alg prk info) [1 ..< Suc n])"

definition HKDF_Extract :: "crypto \<Rightarrow> CCHmacAlgorithm \<Rightarrow> byte list \<Rightarrow> byte list \<Rightarrow> byte list" where
  "HKDF_Extract P alg salt ikm = CCHmac P alg salt ikm"

definition u16_be :: "nat \<Rightarrow> byte list" where
  "u16_be n = [of_nat (n div 256), of_nat (n mod 256)]"

definition HKDF_Expand_Label ::
  "crypto \<Rightarrow> CCHmacAlgorithm \<Rightarrow> byte list \<Rightarrow> string \<Rightarrow> byte list \<Rightarrow> nat \<Rightarrow> byte list" where
  "HKDF_Expand_Label P alg secret label context L =
     HKDF_Expand P alg secret
       (u16_be L @ [of_nat (length (''tls13 '' @ label))] @ bytes_of (''tls13 '' @ label)
        @ [of_nat (length context)] @ context) L"

text \<open>
  \<open>Hash\<close> is the hash function that goes with the HMAC algorithm. \<open>KeySchedule\<close> is
  the composition of the specification for given parameters
  \<open>(hmacAlgorithm, hashLength, keyLength)\<close>. \<open>CipherSuiteParams\<close> is the resolver in the
  words of the specification (identifier \<open>0x1301\<close> has the SHA-256 parameters, every other
  identifier the SHA-384 ones), and \<open>DeriveHandshakeKeys\<close> the composition with the
  parameters of that resolver.
\<close>

definition Hash :: "crypto \<Rightarrow> CCHmacAlgorithm \<Rightarrow> byte list \<Rightarrow> byte list" where
  "Hash P alg messages =
     (case alg of kCCHmacAlgSHA256 \<Rightarrow> CC_SHA256 P messages
      | kCCHmacAlgSHA384 \<Rightarrow> CC_SHA384 P messages)"

definition Derive_Secret ::
  "crypto \<Rightarrow> CCHmacAlgorithm \<Rightarrow> nat \<Rightarrow> byte list \<Rightarrow> string \<Rightarrow> byte list \<Rightarrow> byte list" where
  "Derive_Secret P alg hashLength secret label messages =
     HKDF_Expand_Label P alg secret label (Hash P alg messages) hashLength"

definition KeySchedule ::
  "crypto \<Rightarrow> CCHmacAlgorithm \<Rightarrow> nat \<Rightarrow> nat \<Rightarrow> byte list \<Rightarrow> byte list \<Rightarrow> handshake_keys" where
  "KeySchedule P alg hashLength keyLength sharedSecret transcript =
     (let earlySecret = HKDF_Extract P alg (replicate hashLength 0) (replicate hashLength 0);
          derivedEarly = Derive_Secret P alg hashLength earlySecret ''derived'' [];
          handshakeSecret = HKDF_Extract P alg derivedEarly sharedSecret;
          cHS = Derive_Secret P alg hashLength handshakeSecret ''c hs traffic'' transcript;
          sHS = Derive_Secret P alg hashLength handshakeSecret ''s hs traffic'' transcript
      in \<lparr>hs_secret = handshakeSecret,
          client_key = HKDF_Expand_Label P alg cHS ''key'' [] keyLength,
          client_iv = HKDF_Expand_Label P alg cHS ''iv'' [] 12,
          server_key = HKDF_Expand_Label P alg sHS ''key'' [] keyLength,
          server_iv = HKDF_Expand_Label P alg sHS ''iv'' [] 12,
          client_traffic_secret = cHS\<rparr>)"

definition CipherSuiteParams :: "u16 \<Rightarrow> CCHmacAlgorithm \<times> nat \<times> nat" where
  "CipherSuiteParams cs =
     (if cs = 0x1301 then (kCCHmacAlgSHA256, 32, 16) else (kCCHmacAlgSHA384, 48, 32))"

definition DeriveHandshakeKeys ::
  "crypto \<Rightarrow> u16 \<Rightarrow> byte list \<Rightarrow> byte list \<Rightarrow> handshake_keys" where
  "DeriveHandshakeKeys P cs sharedSecret transcript =
     (case CipherSuiteParams cs of (alg, hashLength, keyLength) \<Rightarrow>
        KeySchedule P alg hashLength keyLength sharedSecret transcript)"

text \<open>Stand-ins for the primitives with the right output sizes, to run examples.\<close>

definition toy_crypto :: crypto where
  "toy_crypto =
     \<lparr>CCHmac = (\<lambda>alg key data. replicate (digest_length alg) (sum_list key + sum_list data)),
      CC_SHA256 = (\<lambda>data. replicate 32 (sum_list data + 1)),
      CC_SHA384 = (\<lambda>data. replicate 48 (sum_list data + 2))\<rparr>"

section \<open>CPacket.c: TLS 1.3 inner plaintext\<close>

text \<open>
  The loop \<^verbatim>\<open>while (i >= 0 && data[i] == 0) i--;\<close> with \<open>i\<close> a signed index; the byte is
  read only when \<open>i \<ge> 0\<close>.
\<close>

function scan_zeros_back :: "byte list \<Rightarrow> int \<Rightarrow> int option" where
  "scan_zeros_back data i =
     (if i \<ge> 0 then
        (case rd data (nat i) of
           None \<Rightarrow> None
         | Some b \<Rightarrow> if b = 0 then scan_zeros_back data (i - 1) else Some i)
      else Some i)"
  by pat_completeness auto
termination
  by (relation "measure (\<lambda>(data, i). nat (i + 1))") auto

declare scan_zeros_back.simps [simp del]

text \<open>
  \<open>find_tls13_content_end\<close>: \<open>Fail\<close> is the return value \<^verbatim>\<open>-1\<close>; \<open>Ok (i, ct)\<close> is
  the return value \<open>i\<close> with \<open>ct\<close> stored in \<^verbatim>\<open>*outContentType\<close>. The index
  \<open>i\<close> starts at \<^verbatim>\<open>(ssize_t)length - 1\<close>; \<open>find_tls13_scan\<close> is the part of the function
  after the fast path (the backward scan and the two returns that follow it).
\<close>

definition find_tls13_scan :: "byte list \<Rightarrow> int \<Rightarrow> (int \<times> byte) ret option" where
  "find_tls13_scan data i0 = do {
     i \<leftarrow> scan_zeros_back data i0;
     if i < 0 then Some Fail
     else do { ct \<leftarrow> rd data (nat i); Some (Ok (i, ct)) }
   }"

definition find_tls13_content_end :: "byte list \<Rightarrow> (int \<times> byte) ret option" where
  "find_tls13_content_end data =
     (let len = int (length data) in
      if len = 0 then Some Fail
      else if len \<ge> 8 then do {
        e \<leftarrow> rd data (nat (len - 1));
        if e \<noteq> 0 then Some (Ok (len - 1, e))
        else find_tls13_scan data (len - 1)
      }
      else find_tls13_scan data (len - 1))"

definition tls13_unwrap_content :: "byte list \<Rightarrow> (int \<times> byte) ret option" where
  "tls13_unwrap_content data =
     (if length data = 0 then Some Fail
      else do {
        r \<leftarrow> find_tls13_content_end data;
        case r of
          Fail \<Rightarrow> Some Fail
        | Ok (contentEnd, ct) \<Rightarrow> Some (Ok (contentEnd, ct))
      })"

text \<open>
  The plain backward scan of the specification, without the fast path: drop the trailing
  zero bytes; the last byte that remains is the content type and the number of bytes before it
  is its index.
\<close>

definition last_nonzero_scan :: "byte list \<Rightarrow> (int \<times> byte) ret" where
  "last_nonzero_scan data =
     (case dropWhile (\<lambda>b. b = 0) (rev data) of
        [] \<Rightarrow> Fail
      | ct # before \<Rightarrow> Ok (int (length before), ct))"

section \<open>CPacket.c: record header\<close>


section \<open>CPacket.c: DNS query parsing\<close>

text \<open>
  Writes to a caller buffer are checked like reads: \<open>wr\<close> stores one byte, \<open>memcpy\<close>
  copies \<open>n\<close> bytes from \<open>src + spos\<close> to \<open>dst + dpos\<close>; both are \<open>None\<close> when they
  would touch a byte outside either buffer.
\<close>

definition wr :: "byte list \<Rightarrow> nat \<Rightarrow> byte \<Rightarrow> byte list option" where
  "wr buf i v = (if i < length buf then Some (buf[i := v]) else None)"

definition memcpy :: "byte list \<Rightarrow> nat \<Rightarrow> byte list \<Rightarrow> nat \<Rightarrow> nat \<Rightarrow> byte list option" where
  "memcpy dst dpos src spos n =
     (if spos + n \<le> length src \<and> dpos + n \<le> length dst
      then Some (take dpos dst @ take n (drop spos src) @ drop (dpos + n) dst)
      else None)"

text \<open>
  The \<^verbatim>\<open>while (offset < len)\<close> loop of \<open>parse_dns_query_ext\<close> over the QNAME. The state is
  \<open>(offset, domainPos, outDomain)\<close>; \<open>Ok\<close> is the state at the \<^verbatim>\<open>break\<close> or at the
  normal end of the loop, \<open>Fail\<close> is a \<^verbatim>\<open>return 0\<close> from inside it.
\<close>

function qname_loop ::
  "byte list \<Rightarrow> nat \<Rightarrow> nat \<Rightarrow> nat \<Rightarrow> byte list \<Rightarrow> (nat \<times> nat \<times> byte list) ret option" where
  "qname_loop data capacity offset domainPos outDomain =
     (if offset < length data then
        (case rd data offset of
           None \<Rightarrow> None
         | Some labelLen \<Rightarrow>
             if labelLen = 0 then Some (Ok (offset + 1, domainPos, outDomain))
             else if labelLen AND 0xC0 \<noteq> 0 then Some Fail
             else if offset + 1 + unat labelLen > length data then Some Fail
             else if domainPos > 0 \<and> domainPos \<ge> capacity then Some Fail
             else
               (case (if domainPos > 0
                      then map_option (\<lambda>b. (domainPos + 1, b)) (wr outDomain domainPos 0x2E)
                      else Some (domainPos, outDomain)) of
                  None \<Rightarrow> None
                | Some (domainPos1, outDomain1) \<Rightarrow>
                    if domainPos1 + unat labelLen > capacity then Some Fail
                    else
                      (case memcpy outDomain1 domainPos1 data (offset + 1) (unat labelLen) of
                         None \<Rightarrow> None
                       | Some outDomain2 \<Rightarrow>
                           qname_loop data capacity (offset + 1 + unat labelLen)
                             (domainPos1 + unat labelLen) outDomain2)))
      else Some (Ok (offset, domainPos, outDomain)))"
  by pat_completeness auto
termination
  by (relation "measure (\<lambda>(data, capacity, offset, domainPos, outDomain). length data - offset)")
     auto

declare qname_loop.simps [simp del]

text \<open>
  \<open>parse_dns_query_ext data outDomain outDomainLen\<close>: \<open>outDomain\<close> is the caller's buffer
  and \<open>outDomainLen\<close> the incoming value of \<^verbatim>\<open>*outDomainLen\<close>, its capacity. On success the
  result is \<open>Ok (outDomain', domainLen, qtype)\<close>: the buffer after the call, the outgoing
  value of \<^verbatim>\<open>*outDomainLen\<close> and \<^verbatim>\<open>*outQType\<close>.
\<close>

definition parse_dns_query_ext ::
  "byte list \<Rightarrow> byte list \<Rightarrow> nat \<Rightarrow> (byte list \<times> nat \<times> u16) ret option" where
  "parse_dns_query_ext data outDomain outDomainLen =
     (if length data < 12 \<or> outDomainLen = 0 then Some Fail
      else do {
        qdcount \<leftarrow> rd16 data 4;
        if qdcount = 0 then Some Fail
        else do {
          r \<leftarrow> qname_loop data (outDomainLen - 1) 12 0 outDomain;
          case r of
            Fail \<Rightarrow> Some Fail
          | Ok (offset, domainPos, out1) \<Rightarrow>
              if domainPos = 0 then Some Fail
              else do {
                out2 \<leftarrow> wr out1 domainPos 0;
                if offset + 2 > length data then Some Fail
                else do {
                  qtype \<leftarrow> rd16 data offset;
                  Some (Ok (out2, domainPos, qtype))
                }
              }
        }
      })"

definition parse_dns_query :: "byte list \<Rightarrow> byte list \<Rightarrow> nat \<Rightarrow> (byte list \<times> nat) ret option" where
  "parse_dns_query data outDomain outDomainLen = do {
     r \<leftarrow> parse_dns_query_ext data outDomain outDomainLen;
     case r of
       Fail \<Rightarrow> Some Fail
     | Ok (out, domainLen, qtype) \<Rightarrow> Some (Ok (out, domainLen))
   }"

text \<open>
  The domain name of the specification: the length-prefixed labels from an offset up to the
  first zero-length label (or the end of the data), joined with dots.
\<close>

function qname_labels :: "byte list \<Rightarrow> nat \<Rightarrow> byte list list" where
  "qname_labels data offset =
     (if offset < length data \<and> data ! offset \<noteq> 0
      then take (unat (data ! offset)) (drop (offset + 1) data)
             # qname_labels data (offset + 1 + unat (data ! offset))
      else [])"
  by pat_completeness auto
termination
  by (relation "measure (\<lambda>(data, offset). length data - offset)") auto

declare qname_labels.simps [simp del]

fun dot_join :: "byte list list \<Rightarrow> byte list" where
  "dot_join [] = []"
| "dot_join [l] = l"
| "dot_join (l # ls) = l @ [0x2E] @ dot_join ls"

text \<open>
  For the loop invariant of \<open>qname_loop\<close>: the domain built so far with more labels
  appended, and what holds of the loop's result when it starts from \<open>domainPos\<close> bytes of
  domain in \<open>out\<close>.
\<close>

definition sep_join :: "byte list \<Rightarrow> byte list list \<Rightarrow> byte list" where
  "sep_join acc ls = (if acc = [] then dot_join ls else acc @ concat (map ((#) 0x2E) ls))"

definition qname_post ::
  "byte list \<Rightarrow> nat \<Rightarrow> nat \<Rightarrow> nat \<Rightarrow> byte list \<Rightarrow> (nat \<times> nat \<times> byte list) ret option \<Rightarrow> bool" where
  "qname_post data capacity offset domainPos out r =
     (case r of
        None \<Rightarrow> False
      | Some Fail \<Rightarrow> True
      | Some (Ok (offset', pos', out')) \<Rightarrow>
          pos' \<le> capacity \<and> domainPos \<le> pos' \<and> length out' = length out
          \<and> offset \<le> offset'
          \<and> take pos' out' = sep_join (take domainPos out) (qname_labels data offset)
          \<and> drop pos' out' = drop pos' out)"

section \<open>CPacket.c: DNS response generation\<close>

text \<open>The loop that skips the QNAME; the result is \<open>offset\<close> after the loop.\<close>

function skip_qname :: "byte list \<Rightarrow> nat \<Rightarrow> nat option" where
  "skip_qname queryData offset =
     (if offset < length queryData then
        (case rd queryData offset of
           None \<Rightarrow> None
         | Some labelLen \<Rightarrow>
             if labelLen = 0 then Some (offset + 1)
             else if labelLen AND 0xC0 \<noteq> 0 then Some (offset + 1)
             else skip_qname queryData (offset + 1 + unat labelLen))
      else Some offset)"
  by pat_completeness auto
termination
  by (relation "measure (\<lambda>(queryData, offset). length queryData - offset)") auto

declare skip_qname.simps [simp del]

fun wr_all :: "byte list \<Rightarrow> (nat \<times> byte) list \<Rightarrow> byte list option" where
  "wr_all buf [] = Some buf"
| "wr_all buf ((i, v) # ws) = (case wr buf i v of None \<Rightarrow> None | Some buf1 \<Rightarrow> wr_all buf1 ws)"

text \<open>\<^verbatim>\<open>(int)responseLen\<close>: the conversion of a \<^verbatim>\<open>size_t\<close> to a 32-bit \<^verbatim>\<open>int\<close>.\<close>

definition int_of_size :: "nat \<Rightarrow> int" where
  "int_of_size n = sint (word_of_nat n :: 32 word)"

text \<open>
  The single-byte stores of \<open>generate_dns_response\<close>, as \<open>(index, byte)\<close> pairs in program
  order: the header fields of an answer response and of a NODATA response, and the fixed part
  of the answer record at \<open>ans = questionEnd\<close>.
\<close>

definition answer_header_writes :: "(nat \<times> byte) list" where
  "answer_header_writes =
     [(2, 0x85), (3, 0x80), (6, 0x00), (7, 0x01), (8, 0x00), (9, 0x00), (10, 0x00), (11, 0x00)]"

definition nodata_header_writes :: "(nat \<times> byte) list" where
  "nodata_header_writes =
     [(2, 0x85), (3, 0x80), (6, 0x00), (7, 0x00), (8, 0x00), (9, 0x00), (10, 0x00), (11, 0x00)]"

definition answer_record_writes :: "nat \<Rightarrow> u16 \<Rightarrow> u16 \<Rightarrow> (nat \<times> byte) list" where
  "answer_record_writes ans ansType rdLength =
     [(ans + 0, 0xC0), (ans + 1, 0x0C),
      (ans + 2, ucast (drop_bit 8 ansType)), (ans + 3, ucast (ansType AND 0xFF)),
      (ans + 4, 0x00), (ans + 5, 0x01),
      (ans + 6, 0x00), (ans + 7, 0x00), (ans + 8, 0x00), (ans + 9, 0x01),
      (ans + 10, ucast (drop_bit 8 rdLength)), (ans + 11, ucast (rdLength AND 0xFF))]"

text \<open>The choice of \<open>(rdLength, ansType)\<close> from \<open>fakeIP\<close> and \<open>qtype\<close>.\<close>

definition answer_shape :: "byte list option \<Rightarrow> u16 \<Rightarrow> u16 \<times> u16" where
  "answer_shape fakeIP qtype =
     (if fakeIP \<noteq> None then
        (if qtype = 1 then (4, 1)
         else if qtype = 28 then (16, 28)
         else (0, 0))
      else (0, 0))"

text \<open>
  \<open>generate_dns_response queryData fakeIP qtype outBuf\<close>: \<open>fakeIP = None\<close> is the
  \<^verbatim>\<open>NULL\<close> pointer (no byte can be read from it); \<open>outBufSize\<close> is the length of
  \<open>outBuf\<close>. On success the result is \<open>Ok (n, outBuf')\<close>: the returned length and the
  buffer after the call.
\<close>

definition generate_dns_response ::
  "byte list \<Rightarrow> byte list option \<Rightarrow> u16 \<Rightarrow> byte list \<Rightarrow> (int \<times> byte list) ret option" where
  "generate_dns_response queryData fakeIP qtype outBuf =
     (if length queryData < 12 then Some Fail
      else do {
        offset \<leftarrow> skip_qname queryData 12;
        let questionEnd = offset + 4;
        if questionEnd > length queryData then Some Fail
        else
          (case answer_shape fakeIP qtype of (rdLength, ansType) \<Rightarrow>
            if rdLength > 0 then
              let answerRecLen = 12 + unat rdLength;
                  responseLen = questionEnd + answerRecLen
              in
              if length outBuf < responseLen then Some Fail
              else do {
                b1 \<leftarrow> memcpy outBuf 0 queryData 0 questionEnd;
                b2 \<leftarrow> wr_all b1 answer_header_writes;
                b3 \<leftarrow> wr_all b2 (answer_record_writes questionEnd ansType rdLength);
                b4 \<leftarrow> memcpy b3 (questionEnd + 12)
                        (case fakeIP of None \<Rightarrow> [] | Some ip \<Rightarrow> ip) 0 (unat rdLength);
                Some (Ok (int_of_size responseLen, b4))
              }
            else
              if length outBuf < questionEnd then Some Fail
              else do {
                b1 \<leftarrow> memcpy outBuf 0 queryData 0 questionEnd;
                b2 \<leftarrow> wr_all b1 nodata_header_writes;
                Some (Ok (int_of_size questionEnd, b2))
              })
      })"

section \<open>CPacket.c: ServerHello parsing\<close>

text \<open>\<open>rd_n data i n\<close> reads the \<open>n\<close> bytes at \<open>data + i\<close> (the source of a \<^verbatim>\<open>memcpy\<close>).\<close>

definition rd_n :: "byte list \<Rightarrow> nat \<Rightarrow> nat \<Rightarrow> byte list option" where
  "rd_n data i n = (if i + n \<le> length data then Some (take n (drop i data)) else None)"

text \<open>
  The inner loop \<^verbatim>\<open>while (shOffset + 4 <= extEnd)\<close>: \<open>Ok key\<close> is \<^verbatim>\<open>return 1\<close> with the
  32 bytes copied to \<^verbatim>\<open>outKeyShare\<close>; \<open>Fail\<close> is a \<^verbatim>\<open>return 0\<close> inside the loop, or
  the end of the loop (followed by \<^verbatim>\<open>break; return 0\<close>).
\<close>

function walk_extensions :: "byte list \<Rightarrow> nat \<Rightarrow> nat \<Rightarrow> byte list ret option" where
  "walk_extensions data extEnd shOffset =
     (if shOffset + 4 \<le> extEnd then
        (case rd16 data shOffset of
           None \<Rightarrow> None
         | Some extType \<Rightarrow>
            (case rd16 data (shOffset + 2) of
               None \<Rightarrow> None
             | Some extDataLen \<Rightarrow>
                 if extType = 0x0033 then
                   if shOffset + 4 + 4 > length data then Some Fail
                   else
                     (case rd16 data (shOffset + 4) of
                        None \<Rightarrow> None
                      | Some grp \<Rightarrow>
                         (case rd16 data (shOffset + 4 + 2) of
                            None \<Rightarrow> None
                          | Some keyLen \<Rightarrow>
                              if grp = 0x001d \<and> keyLen = 32 then
                                if shOffset + 4 + 4 + 32 > length data then Some Fail
                                else map_option Ok (rd_n data (shOffset + 4 + 4) 32)
                              else
                                walk_extensions data extEnd
                                  (shOffset + 4 + 4 + unat extDataLen)))
                 else walk_extensions data extEnd (shOffset + 4 + unat extDataLen)))
      else Some Fail)"
  by pat_completeness auto
termination
  by (relation "measure (\<lambda>(data, extEnd, shOffset). extEnd + 1 - shOffset)") auto

declare walk_extensions.simps [simp del]

text \<open>
  The body of the outer loop for a ServerHello message that starts at \<open>offset\<close> (the byte
  after the record header). The result is \<open>Ok (keyShare, cipherSuite)\<close>.
\<close>

definition server_hello_body :: "byte list \<Rightarrow> nat \<Rightarrow> (byte list \<times> u16) ret option" where
  "server_hello_body data offset =
     (let shOffset = offset + 1 + 3 + 2 + 32 in
      if shOffset \<ge> length data then Some Fail
      else do {
        sessionIdLen \<leftarrow> rd data shOffset;
        let shOffset = shOffset + (1 + unat sessionIdLen);
        if shOffset + 2 > length data then Some Fail
        else do {
          cipherSuite \<leftarrow> rd16 data shOffset;
          let shOffset = shOffset + 3;
          if shOffset + 2 > length data then Some Fail
          else do {
            extLen \<leftarrow> rd16 data shOffset;
            let shOffset = shOffset + 2;
            let extEnd = shOffset + unat extLen;
            if extEnd > length data then Some Fail
            else do {
              r \<leftarrow> walk_extensions data extEnd shOffset;
              case r of
                Fail \<Rightarrow> Some Fail
              | Ok keyShare \<Rightarrow> Some (Ok (keyShare, cipherSuite))
            }
          }
        }
      })"

text \<open>
  The outer loop \<^verbatim>\<open>while (offset + 5 < len)\<close>. Both of its \<^verbatim>\<open>break\<close>s and its normal end
  lead to the final \<^verbatim>\<open>return 0\<close>.
\<close>

function server_hello_loop :: "byte list \<Rightarrow> nat \<Rightarrow> (byte list \<times> u16) ret option" where
  "server_hello_loop data offset =
     (if offset + 5 < length data then
        (case rd data offset of
           None \<Rightarrow> None
         | Some contentType \<Rightarrow>
             if contentType \<noteq> 0x16 then Some Fail
             else
               (case rd16 data (offset + 3) of
                  None \<Rightarrow> None
                | Some recordLen \<Rightarrow>
                    if offset + 5 + unat recordLen > length data then Some Fail
                    else
                      (case rd data (offset + 5) of
                         None \<Rightarrow> None
                       | Some msgType \<Rightarrow>
                           if msgType \<noteq> 0x02
                           then server_hello_loop data (offset + 5 + unat recordLen)
                           else server_hello_body data (offset + 5))))
      else Some Fail)"
  by pat_completeness auto
termination
  by (relation "measure (\<lambda>(data, offset). length data - offset)") auto

declare server_hello_loop.simps [simp del]

definition parse_server_hello :: "byte list \<Rightarrow> (byte list \<times> u16) ret option" where
  "parse_server_hello data = server_hello_loop data 0"

section \<open>CGeoIP.c\<close>

text \<open>
  \<^verbatim>\<open>(uint32_t)b0 << 24 | (uint32_t)b1 << 16 | (uint32_t)b2 << 8 | b3\<close>
\<close>

definition be32 :: "byte \<Rightarrow> byte \<Rightarrow> byte \<Rightarrow> byte \<Rightarrow> u32" where
  "be32 b0 b1 b2 b3 =
     push_bit 24 (ucast b0) OR push_bit 16 (ucast b1) OR push_bit 8 (ucast b2) OR ucast b3"

definition rd32 :: "byte list \<Rightarrow> nat \<Rightarrow> u32 option" where
  "rd32 data i = do {
     b0 \<leftarrow> rd data i; b1 \<leftarrow> rd data (i + 1);
     b2 \<leftarrow> rd data (i + 2); b3 \<leftarrow> rd data (i + 3);
     Some (be32 b0 b1 b2 b3)
   }"

text \<open>
  The indices \<open>lo\<close>, \<open>hi\<close>, \<open>mid\<close> and \<open>best\<close> are C \<^verbatim>\<open>int\<close>s (32 bits). \<open>int32 x\<close>
  is the result of a signed operation whose mathematical value is \<open>x\<close>: signed overflow is
  undefined behaviour. \<^verbatim>\<open>(int)count\<close> converts an unsigned 32-bit value and wraps (\<open>sint\<close>).
  In the search, \<open>0 \<le> lo\<close> and \<open>hi \<le> INT_MAX - 1\<close> hold from the one call on, so
  \<open>hi - lo\<close>, \<open>mid + 1\<close> and \<open>mid - 1\<close> cannot overflow; \<^verbatim>\<open>(int)count - 1\<close> and
  \<^verbatim>\<open>mid * 10\<close> can. In \<open>geoip_search\<close> the local \<open>mid\<close> is written out as
  \<open>lo + (hi - lo) div 2\<close>; the division is that of C, since \<open>hi - lo\<close> is not negative
  inside the loop.
\<close>

definition int32 :: "int \<Rightarrow> int option" where
  "int32 x = (if - (2 ^ 31) \<le> x \<and> x < 2 ^ 31 then Some x else None)"

text \<open>
  A read through \<^verbatim>\<open>const uint8_t *e = entries + off\<close> with \<^verbatim>\<open>entries = db + 8\<close>:
  \<open>e[k]\<close> is \<open>db[8 + off + k]\<close>.
\<close>

definition entry_rd32 :: "byte list \<Rightarrow> int \<Rightarrow> nat \<Rightarrow> u32 option" where
  "entry_rd32 db off k = (if 0 \<le> 8 + off then rd32 db (nat (8 + off) + k) else None)"

definition entry_rd16 :: "byte list \<Rightarrow> int \<Rightarrow> nat \<Rightarrow> u16 option" where
  "entry_rd16 db off k = (if 0 \<le> 8 + off then rd16 db (nat (8 + off) + k) else None)"

function geoip_search :: "byte list \<Rightarrow> u32 \<Rightarrow> int \<Rightarrow> int \<Rightarrow> int \<Rightarrow> int option" where
  "geoip_search db ip lo hi best =
     (if lo \<le> hi then
        (case int32 ((lo + (hi - lo) div 2) * 10) of
           None \<Rightarrow> None
         | Some off \<Rightarrow>
            (case entry_rd32 db off 0 of
               None \<Rightarrow> None
             | Some startIP \<Rightarrow>
                 if startIP \<le> ip
                 then geoip_search db ip ((lo + (hi - lo) div 2) + 1) hi (lo + (hi - lo) div 2)
                 else geoip_search db ip lo ((lo + (hi - lo) div 2) - 1) best))
      else Some best)"
  by pat_completeness auto
termination
  by (relation "measure (\<lambda>(db, ip, lo, hi, best). nat (hi - lo + 1))") auto

declare geoip_search.simps [simp del]

text \<open>The magic test \<^verbatim>\<open>db[0] != 'G' || db[1] != 'E' || db[2] != 'O' || db[3] != '1'\<close>.\<close>

definition bad_magic :: "byte list \<Rightarrow> bool option" where
  "bad_magic db = do {
     b0 \<leftarrow> rd db 0;
     if b0 \<noteq> 0x47 then Some True
     else do {
       b1 \<leftarrow> rd db 1;
       if b1 \<noteq> 0x45 then Some True
       else do {
         b2 \<leftarrow> rd db 2;
         if b2 \<noteq> 0x4F then Some True
         else do { b3 \<leftarrow> rd db 3; Some (b3 \<noteq> 0x31) }
       }
     }
   }"

text \<open>
  \<open>geoip_lookup pton db ip_str\<close>. The parameter \<open>pton\<close> stands for the C library's
  \<^verbatim>\<open>inet_pton(AF_INET, ip_str, &addr)\<close> followed by \<^verbatim>\<open>ntohl\<close>: \<open>Some ip\<close> is the
  host-order address when \<^verbatim>\<open>inet_pton\<close> returns 1, \<open>None\<close> any other return value. The
  pointers \<open>db\<close> and \<open>ip_str\<close> are not \<^verbatim>\<open>NULL\<close>.
\<close>

definition geoip_lookup :: "(string \<Rightarrow> u32 option) \<Rightarrow> byte list \<Rightarrow> string \<Rightarrow> u16 option" where
  "geoip_lookup pton db ip_str =
     (if length db < 8 then Some 0
      else do {
        bad \<leftarrow> bad_magic db;
        if bad then Some 0
        else do {
          count \<leftarrow> rd32 db 4;
          if length db < 8 + unat count * 10 then Some 0
          else
            (case pton ip_str of
               None \<Rightarrow> Some 0
             | Some ip \<Rightarrow> do {
                 hi \<leftarrow> int32 (sint count - 1);
                 best \<leftarrow> geoip_search db ip 0 hi (- 1);
                 if best < 0 then Some 0
                 else do {
                   off \<leftarrow> int32 (best * 10);
                   endIP \<leftarrow> entry_rd32 db off 4;
                   if ip > endIP then Some 0
                   else entry_rd16 db off 8
                 }
               })
        }
      })"

text \<open>
  The database of the specification: its entry count and the fields of its \<open>i\<close>-th entry,
  and what the specification requires of a table: the magic, room for \<open>count\<close> entries,
  start addresses in ascending order and ranges that do not overlap.
\<close>

definition geo_count :: "byte list \<Rightarrow> nat" where
  "geo_count db = unat (be32 (db ! 4) (db ! 5) (db ! 6) (db ! 7))"

definition geo_start :: "byte list \<Rightarrow> nat \<Rightarrow> u32" where
  "geo_start db i =
     be32 (db ! (8 + 10 * i)) (db ! (8 + 10 * i + 1)) (db ! (8 + 10 * i + 2)) (db ! (8 + 10 * i + 3))"

definition geo_end :: "byte list \<Rightarrow> nat \<Rightarrow> u32" where
  "geo_end db i =
     be32 (db ! (8 + 10 * i + 4)) (db ! (8 + 10 * i + 5)) (db ! (8 + 10 * i + 6))
       (db ! (8 + 10 * i + 7))"

definition geo_country :: "byte list \<Rightarrow> nat \<Rightarrow> u16" where
  "geo_country db i = be16 (db ! (8 + 10 * i + 8)) (db ! (8 + 10 * i + 9))"

definition geo_magic :: "byte list \<Rightarrow> bool" where
  "geo_magic db \<longleftrightarrow> take 4 db = [0x47, 0x45, 0x4F, 0x31]"

definition geo_table :: "byte list \<Rightarrow> bool" where
  "geo_table db \<longleftrightarrow>
     geo_magic db \<and> 8 + geo_count db * 10 \<le> length db
     \<and> (\<forall>j < geo_count db. \<forall>i < j. geo_start db i \<le> geo_start db j)
     \<and> (\<forall>i < geo_count db - 1. geo_end db i < geo_start db (i + 1))"

definition geo_contains :: "byte list \<Rightarrow> nat \<Rightarrow> u32 \<Rightarrow> bool" where
  "geo_contains db i ip \<longleftrightarrow> i < geo_count db \<and> geo_start db i \<le> ip \<and> ip \<le> geo_end db i"

text \<open>
  A parser to run the lookup on examples, after \<^verbatim>\<open>inet_pton(AF_INET, ip_str, &addr)\<close> and
  \<^verbatim>\<open>ntohl\<close>: the string is four decimal fields separated by single dots and nothing else;
  a field is at most 255 and has no leading zero (a lone \<open>0\<close> is a field). The first field
  is the most significant byte of the address.
\<close>

definition digit_of :: "char \<Rightarrow> nat option" where
  "digit_of c =
     (let n = (of_char c :: nat) in if 48 \<le> n \<and> n \<le> 57 then Some (n - 48) else None)"

fun dotted_fields :: "string \<Rightarrow> nat option \<Rightarrow> nat list option" where
  "dotted_fields [] None = None"
| "dotted_fields [] (Some v) = Some [v]"
| "dotted_fields (c # cs) cur =
     (if c = CHR ''.'' then
        (case cur of
           None \<Rightarrow> None
         | Some v \<Rightarrow> map_option (\<lambda>vs. v # vs) (dotted_fields cs None))
      else
        (case digit_of c of
           None \<Rightarrow> None
         | Some d \<Rightarrow>
            (case cur of
               None \<Rightarrow> dotted_fields cs (Some d)
             | Some w \<Rightarrow>
                 if w = 0 \<or> 10 * w + d > 255 then None
                 else dotted_fields cs (Some (10 * w + d)))))"

definition dotted_quad :: "string \<Rightarrow> u32 option" where
  "dotted_quad s =
     (case dotted_fields s None of
        Some [a, b, c, d] \<Rightarrow> Some (be32 (of_nat a) (of_nat b) (of_nat c) (of_nat d))
      | _ \<Rightarrow> None)"

text \<open>One table entry, and the table with the entries \<open>(i, i, "AA")\<close> for \<open>i < n\<close>.\<close>

definition u32_bytes :: "u32 \<Rightarrow> byte list" where
  "u32_bytes w = [ucast (drop_bit 24 w), ucast (drop_bit 16 w), ucast (drop_bit 8 w), ucast w]"

definition geo_entry :: "u32 \<Rightarrow> u32 \<Rightarrow> u16 \<Rightarrow> byte list" where
  "geo_entry s e c = u32_bytes s @ u32_bytes e @ [ucast (drop_bit 8 c), ucast c]"

definition geo_db :: "u32 \<Rightarrow> (nat \<Rightarrow> byte list) \<Rightarrow> nat \<Rightarrow> byte list" where
  "geo_db count entry n =
     [0x47, 0x45, 0x4F, 0x31] @ u32_bytes count @ concat (map entry [0..<n])"

section \<open>Positions of the record walk and of the label walk\<close>










section \<open>Example inputs\<close>

text \<open>
  A TLS record of type Handshake (\<open>0x16\<close>) holding a ServerHello: an empty session id, cipher
  suite \<open>0x1302\<close>, and one extension, \<open>key_share\<close> with group \<open>0x001d\<close> and a 32-byte key.
\<close>

definition example_key_share :: "byte list" where
  "example_key_share =
     [0x34, 0x60, 0xBE, 0x31, 0x20, 0x1E, 0x69, 0xFE, 0xDA, 0xA0, 0xEE, 0xE8, 0xB9, 0x99, 0x7F, 0x5C,
      0x7C, 0x29, 0x99, 0xFD, 0xAF, 0xE5, 0x93, 0x25, 0x3C, 0xD6, 0x54, 0xAF, 0x4D, 0xFA, 0xD7, 0x14]"

definition example_server_hello :: "byte list" where
  "example_server_hello =
     [0x16, 0x03, 0x03, 0x00, 0x54, 0x02, 0x00, 0x00, 0x50, 0x03, 0x03,
      0xA5, 0x4D, 0xCA, 0x18, 0x25, 0x30, 0xBB, 0x1D, 0x6D, 0x13, 0x2C, 0xDE, 0xD6, 0x23, 0x7B, 0x2E,
      0xD9, 0x1E, 0x3F, 0x72, 0x1F, 0xCB, 0x19, 0x71, 0x17, 0x44, 0x94, 0xD6, 0x49, 0x3C, 0x9D, 0x5C,
      0x00, 0x13, 0x02, 0x00, 0x00, 0x28,
      0x00, 0x33, 0x00, 0x24, 0x00, 0x1d, 0x00, 0x20,
      0x34, 0x60, 0xBE, 0x31, 0x20, 0x1E, 0x69, 0xFE, 0xDA, 0xA0, 0xEE, 0xE8, 0xB9, 0x99, 0x7F, 0x5C,
      0x7C, 0x29, 0x99, 0xFD, 0xAF, 0xE5, 0x93, 0x25, 0x3C, 0xD6, 0x54, 0xAF, 0x4D, 0xFA, 0xD7, 0x14]"

text \<open>A ChangeCipherSpec record (content type \<open>0x14\<close>, one byte of payload).\<close>

definition example_ccs_record :: "byte list" where
  "example_ccs_record = [0x14, 0x03, 0x03, 0x00, 0x01, 0x01]"

text \<open>
  A DNS query whose QNAME at offset 12 is a lone compression pointer \<open>C0 0C\<close>, followed by
  QTYPE 1 and QCLASS 1: 18 bytes.
\<close>

definition example_pointer_query :: "byte list" where
  "example_pointer_query =
     [0x12, 0x34, 0x01, 0x00, 0x00, 0x01, 0x00, 0x00, 0x00, 0x00, 0x00, 0x00,
      0xC0, 0x0C, 0x00, 0x01, 0x00, 0x01]"

text \<open>
  The three-entry table of the specification: \<open>(1, 10, "AA")\<close>, \<open>(11, 20, "BB")\<close>,
  \<open>(100, 200, "CC")\<close>.
\<close>

definition example_geo_table :: "byte list" where
  "example_geo_table =
     [0x47, 0x45, 0x4F, 0x31, 0, 0, 0, 3,
      0, 0, 0, 1, 0, 0, 0, 10, 0x41, 0x41,
      0, 0, 0, 11, 0, 0, 0, 20, 0x42, 0x42,
      0, 0, 0, 100, 0, 0, 0, 200, 0x43, 0x43]"

text \<open>
  Two tables too large for the 32-bit \<^verbatim>\<open>int\<close> indices of the search. \<open>huge_table\<close> has
  \<open>2 ^ 31 + 1\<close> entries \<open>(i, i, "AA")\<close>; \<open>oversized_table\<close> has 429496731 entries of ten
  zero bytes (more than 4 GiB).
\<close>

definition huge_table :: "byte list" where
  "huge_table =
     geo_db 0x80000001 (\<lambda>i. geo_entry (of_nat i) (of_nat i) 0x4141) 2147483649"


text \<open>
  A DNS query for \<open>example.com\<close>, type A, class IN, and the 11 bytes of the name.
\<close>

definition example_dns_query :: "byte list" where
  "example_dns_query =
     [0x12, 0x34, 0x01, 0x00, 0x00, 0x01, 0x00, 0x00, 0x00, 0x00, 0x00, 0x00,
      0x07, 0x65, 0x78, 0x61, 0x6D, 0x70, 0x6C, 0x65, 0x03, 0x63, 0x6F, 0x6D, 0x00,
      0x00, 0x01, 0x00, 0x01]"

definition example_com :: "byte list" where
  "example_com = [0x65, 0x78, 0x61, 0x6D, 0x70, 0x6C, 0x65, 0x2E, 0x63, 0x6F, 0x6D]"

text \<open>
  A transcript of \<open>2 ^ 32 + 1\<close> bytes: zero bytes, then one byte 5.
\<close>

definition long_transcript :: "byte list" where
  "long_transcript = replicate 4294967296 0 @ [5]"






section \<open>Theorems\<close>

subsection \<open>TLS 1.3 inner plaintext\<close>

lemma scan_zeros_back_eq:
  "n \<le> length data \<Longrightarrow>
   scan_zeros_back data (int n - 1) =
     Some (int (length (dropWhile (\<lambda>b. b = 0) (rev (take n data)))) - 1)"
proof (induction n)
  case 0
  then show ?case by (simp add: scan_zeros_back.simps)
next
  case (Suc n)
  then have n: "n < length data" by simp
  have t: "take (Suc n) data = take n data @ [data ! n]"
    using n by (simp add: take_Suc_conv_app_nth)
  show ?case
  proof (cases "data ! n = 0")
    case True
    then show ?thesis using Suc n t by (simp add: rd_def scan_zeros_back.simps [of data "int n"])
  next
    case False
    then show ?thesis using n t by (simp add: rd_def scan_zeros_back.simps [of data "int n"])
  qed
qed

lemma dropWhile_rev_nth:
  assumes "dropWhile P (rev data) = x # xs"
  shows "length xs < length data \<and> data ! length xs = x"
proof -
  have "rev data = takeWhile P (rev data) @ x # xs"
    using assms by (metis takeWhile_dropWhile_id)
  then have "data = rev xs @ x # rev (takeWhile P (rev data))"
    by (metis append.assoc append_Cons append_Nil rev.simps(2) rev_append rev_rev_ident)
  then have d: "data = rev xs @ x # rev (takeWhile P (rev data))" .
  have "length data = length xs + 1 + length (takeWhile P (rev data))"
    by (subst d) simp
  moreover have "(rev xs @ x # rev (takeWhile P (rev data))) ! length xs = x"
    by (simp add: nth_append)
  ultimately show ?thesis using d
    by (metis less_add_one trans_less_add1)
qed

lemma last_nonzero_scan_Nil:
  "dropWhile (\<lambda>b. b = 0) (rev data) = [] \<Longrightarrow> last_nonzero_scan data = Fail"
  by (simp only: last_nonzero_scan_def list.simps)

lemma last_nonzero_scan_Cons:
  "dropWhile (\<lambda>b. b = 0) (rev data) = x # xs \<Longrightarrow>
   last_nonzero_scan data = Ok (int (length xs), x)"
  by (simp only: last_nonzero_scan_def list.simps)

lemma find_tls13_scan_eq:
  "find_tls13_scan data (int (length data) - 1) = Some (last_nonzero_scan data)"
proof (cases "dropWhile (\<lambda>b. b = 0) (rev data)")
  case Nil
  have "scan_zeros_back data (int (length data) - 1)
          = Some (int (length (dropWhile (\<lambda>b. b = 0) (rev data))) - 1)"
    using scan_zeros_back_eq [of "length data" data] by simp
  then have "scan_zeros_back data (int (length data) - 1) = Some (- 1)"
    unfolding Nil by simp
  then show ?thesis
    by (simp add: find_tls13_scan_def last_nonzero_scan_Nil [OF Nil])
next
  case (Cons x xs)
  have "scan_zeros_back data (int (length data) - 1)
          = Some (int (length (dropWhile (\<lambda>b. b = 0) (rev data))) - 1)"
    using scan_zeros_back_eq [of "length data" data] by simp
  then have "scan_zeros_back data (int (length data) - 1) = Some (int (length xs))"
    unfolding Cons by simp
  then show ?thesis
    using dropWhile_rev_nth [OF Cons]
    by (simp add: find_tls13_scan_def last_nonzero_scan_Cons [OF Cons] rd_def)
qed

lemma last_nonzero_scan_last:
  "data \<noteq> [] \<Longrightarrow> last data \<noteq> 0 \<Longrightarrow>
   last_nonzero_scan data = Ok (int (length data) - 1, last data)"
proof -
  assume a: "data \<noteq> []" "last data \<noteq> 0"
  have "data = butlast data @ [last data]"
    using a by simp
  then have r: "rev data = last data # rev (butlast data)"
    by (metis rev.simps(2) rev_rev_ident rev_swap)
  have "dropWhile (\<lambda>b. b = 0) (rev data) = last data # rev (butlast data)"
    unfolding r using a by simp
  from last_nonzero_scan_Cons [OF this] show ?thesis
    using a by (simp add: of_nat_diff Suc_leI)
qed

lemma find_tls13_content_end_unfold:
  "data \<noteq> [] \<Longrightarrow>
   find_tls13_content_end data =
     (if 8 \<le> length data \<and> last data \<noteq> 0
      then Some (Ok (int (length data) - 1, last data))
      else find_tls13_scan data (int (length data) - 1))"
proof -
  assume ne: "data \<noteq> []"
  have n: "nat (int (length data) - 1) = length data - 1"
    by simp
  have r: "rd data (length data - 1) = Some (last data)"
    using ne by (simp add: rd_def last_conv_nth)
  have l: "int (length data) \<noteq> 0"
    using ne by simp
  show ?thesis
    unfolding find_tls13_content_end_def Let_def n r
    using l by (simp del: of_nat_eq_0_iff)
qed

lemma find_tls13_content_end_eq:
  "find_tls13_content_end data = Some (last_nonzero_scan data)"
proof (cases "data = []")
  case True
  then show ?thesis by (simp add: find_tls13_content_end_def last_nonzero_scan_def)
next
  case False
  show ?thesis
    unfolding find_tls13_content_end_unfold [OF False]
    using False by (simp add: last_nonzero_scan_last find_tls13_scan_eq)
qed

lemma tls13_unwrap_content_eq:
  "tls13_unwrap_content data = Some (last_nonzero_scan data)"
proof (cases "data = []")
  case True
  then show ?thesis by (simp add: tls13_unwrap_content_def last_nonzero_scan_def)
next
  case False
  then show ?thesis
    by (cases "last_nonzero_scan data")
       (simp_all add: tls13_unwrap_content_def find_tls13_content_end_eq)
qed

lemma last_nonzero_scan_padded:
  "ct \<noteq> 0 \<Longrightarrow>
   last_nonzero_scan (content @ ct # replicate n 0) = Ok (int (length content), ct)"
  by (simp add: last_nonzero_scan_def dropWhile_append3)

lemma last_nonzero_scan_Fail:
  "last_nonzero_scan data = Fail \<longleftrightarrow> (\<forall>b \<in> set data. b = 0)"
proof (cases "dropWhile (\<lambda>b. b = 0) (rev data)")
  case Nil
  then have "\<forall>b \<in> set (rev data). b = 0"
    by (simp only: dropWhile_eq_Nil_conv)
  then show ?thesis by (simp add: last_nonzero_scan_Nil [OF Nil])
next
  case (Cons x xs)
  have "\<not> (\<forall>b \<in> set (rev data). b = 0)"
  proof
    assume "\<forall>b \<in> set (rev data). b = 0"
    then have "dropWhile (\<lambda>b. b = 0) (rev data) = []"
      by (simp only: dropWhile_eq_Nil_conv)
    then show False
      unfolding Cons by simp
  qed
  then show ?thesis by (simp add: last_nonzero_scan_Cons [OF Cons])
qed


text \<open>
  C7: for every input buffer, \<open>find_tls13_content_end\<close> with its fast path returns the same
  index and content-type byte as the plain backward scan for the last non-zero byte, and
  returns \<^verbatim>\<open>-1\<close> exactly when that scan finds none.
\<close>

theorem find_tls13_content_end_refines_scan:
  "find_tls13_content_end data = Some (last_nonzero_scan data)"
  by (rule find_tls13_content_end_eq)

text \<open>
  C6: for every content, every content type from 1 to 255 and every number \<open>n\<close> of padding
  bytes, \<open>tls13_unwrap_content\<close> on \<open>content || contentType || n zero bytes\<close> succeeds
  with the length of the content and the content type; it fails exactly when the buffer is
  empty or all zero (and it always returns).
\<close>

theorem tls13_unwrap_content_roundtrip:
  "(ct \<noteq> 0 \<longrightarrow>
      tls13_unwrap_content (content @ [ct] @ replicate n 0)
        = Some (Ok (int (length content), ct)))
   \<and> (tls13_unwrap_content data = Some Fail \<longleftrightarrow> data = [] \<or> (\<forall>b \<in> set data. b = 0))
   \<and> tls13_unwrap_content data \<noteq> None"
  by (auto simp: tls13_unwrap_content_eq last_nonzero_scan_padded last_nonzero_scan_Fail)

theorem tls13_unwrap_content_roundtrip_witness:
  "tls13_unwrap_content ([1, 2, 3] @ [23] @ replicate 2 0) = Some (Ok (3, 23))
   \<and> tls13_unwrap_content [0, 0] = Some Fail
   \<and> tls13_unwrap_content [1, 2, 3, 23] \<noteq> Some Fail"
  using tls13_unwrap_content_roundtrip [of 23 "[1, 2, 3]" 2 "[0, 0]"]
    tls13_unwrap_content_roundtrip [of 23 "[]" 0 "[1, 2, 3, 23]"]
  by simp

subsection \<open>ServerHello parsing\<close>

lemma rd_shift: "rd (pre @ data) (length pre + i) = rd data i"
  by (simp add: rd_def)

lemma rd16_shift: "rd16 (pre @ data) (length pre + i) = rd16 data i"
  using rd_shift [of pre data i] rd_shift [of pre data "i + 1"]
  by (simp add: rd16_def add.assoc)

lemma rd_n_shift: "rd_n (pre @ data) (length pre + i) n = rd_n data i n"
  by (simp add: rd_n_def)

lemmas shift_simps =
  add.assoc rd_shift rd16_shift rd_n_shift length_append
  nat_add_left_cancel_le nat_add_left_cancel_less

text \<open>The parser only looks at offsets relative to where it stands: bytes in front shift it.\<close>

lemma walk_extensions_shift:
  "walk_extensions (pre @ data) (length pre + extEnd) (length pre + shOffset)
   = walk_extensions data extEnd shOffset"
proof (induction "extEnd + 1 - shOffset" arbitrary: shOffset rule: less_induct)
  case less
  have IH: "\<And>k. shOffset + 4 \<le> extEnd \<Longrightarrow> 0 < k \<Longrightarrow>
      walk_extensions (pre @ data) (length pre + extEnd) (length pre + (shOffset + k))
      = walk_extensions data extEnd (shOffset + k)"
    by (rule less) simp
  show ?case
    apply (subst walk_extensions.simps [of "pre @ data"])
    apply (subst walk_extensions.simps [of data extEnd shOffset])
    apply (simp only: shift_simps)
    apply (simp add: IH split: option.splits)
    done
qed

lemma server_hello_body_shift:
  "server_hello_body (pre @ data) (length pre + offset) = server_hello_body data offset"
proof -
  have w: "\<And>a b. walk_extensions (pre @ data) (length pre + a) (length pre + b)
      = walk_extensions data a b"
    by (rule walk_extensions_shift)
  show ?thesis
    unfolding server_hello_body_def Let_def
    by (simp only: shift_simps w linorder_not_le [symmetric])
qed

lemma server_hello_loop_shift:
  "server_hello_loop (pre @ data) (length pre + offset) = server_hello_loop data offset"
proof (induction "length data - offset" arbitrary: offset rule: less_induct)
  case less
  have IH: "\<And>k. offset + 5 < length data \<Longrightarrow> 0 < k \<Longrightarrow>
      server_hello_loop (pre @ data) (length pre + (offset + k))
      = server_hello_loop data (offset + k)"
    by (rule less) simp
  have b: "\<And>k. server_hello_body (pre @ data) (length pre + k) = server_hello_body data k"
    by (rule server_hello_body_shift)
  show ?case
    apply (subst server_hello_loop.simps [of "pre @ data"])
    apply (subst server_hello_loop.simps [of data offset])
    apply (simp only: shift_simps b)
    apply (simp add: IH split: option.splits)
    done
qed

lemma parse_server_hello_skips_handshake_record:
  assumes "length body = unat (be16 l1 l2)" "body = m # body'" "m \<noteq> 0x02"
  shows "parse_server_hello ([0x16, v1, v2, l1, l2] @ body @ rest) = parse_server_hello rest"
proof -
  let ?rec = "[0x16, v1, v2, l1, l2] @ body"
  have len: "length ?rec + 0 = 5 + unat (be16 l1 l2)"
    using assms by simp
  have "server_hello_loop (?rec @ rest) 0
        = server_hello_loop (?rec @ rest) (5 + unat (be16 l1 l2))"
    using assms
    by (subst server_hello_loop.simps) (simp add: rd_def rd16_def nth_append)
  also have "\<dots> = server_hello_loop (?rec @ rest) (length ?rec + 0)"
    by (simp only: len)
  also have "\<dots> = server_hello_loop rest 0"
    by (rule server_hello_loop_shift)
  finally show ?thesis
    by (simp add: parse_server_hello_def)
qed

lemma parse_server_hello_not_handshake:
  "ct \<noteq> 0x16 \<Longrightarrow> parse_server_hello (ct # rest) = Some Fail"
  by (simp add: parse_server_hello_def server_hello_loop.simps [of _ 0] rd_def)

lemma parse_example_server_hello:
  "parse_server_hello example_server_hello = Some (Ok (example_key_share, 0x1302))"
  by (simp add: parse_server_hello_def server_hello_loop.simps server_hello_body_def
      walk_extensions.simps rd_def rd16_def be16_def rd_n_def Let_def
      example_server_hello_def example_key_share_def)

text \<open>
  C4, as stated, on a ChangeCipherSpec record followed by the example ServerHello record: the
  ServerHello record alone parses, with cipher suite \<open>0x1302\<close> and its key share, but behind the
  non-Handshake record it is never reached and the parse fails.
\<close>

theorem parse_server_hello_non_handshake_counterexample:
  "parse_server_hello example_server_hello = Some (Ok (example_key_share, 0x1302))
   \<and> parse_server_hello (example_ccs_record @ example_server_hello) = Some Fail"
  by (simp add: parse_example_server_hello)
     (simp add: example_ccs_record_def parse_server_hello_def server_hello_loop.simps [of _ 0]
        rd_def)

text \<open>
  C4, amended: for every input whose first TLS record has a content type other than Handshake
  (\<open>0x16\<close>), \<open>parse_server_hello\<close> does not skip that record: it stops there and fails,
  whatever follows. The records it skips are the complete Handshake records whose first
  message byte is not ServerHello (\<open>0x02\<close>): with such a record in front, the result is that
  of parsing the bytes after it.
\<close>

theorem parse_server_hello_record_walk:
  "(ct \<noteq> 0x16 \<longrightarrow> parse_server_hello (ct # rest) = Some Fail)
   \<and> (length body = unat (be16 l1 l2) \<and> body = m # body' \<and> m \<noteq> 0x02 \<longrightarrow>
        parse_server_hello ([0x16, v1, v2, l1, l2] @ body @ rest') = parse_server_hello rest')"
  using parse_server_hello_not_handshake [of ct rest]
    parse_server_hello_skips_handshake_record [of body l1 l2 m body' v1 v2 rest']
  by blast

theorem parse_server_hello_record_walk_witness:
  "parse_server_hello (0x14 # [0x03, 0x03, 0x00, 0x01, 0x01] @ example_server_hello) = Some Fail
   \<and> parse_server_hello ([0x16, 0x03, 0x03, 0x00, 0x02] @ [0x01, 0x00] @ example_server_hello)
       = Some (Ok (example_key_share, 0x1302))"
  using parse_server_hello_record_walk
    [of "0x14" "[0x03, 0x03, 0x00, 0x01, 0x01] @ example_server_hello"
        "[0x01, 0x00]" "0x00" "0x02" "0x01" "[0x00]" "0x03" "0x03" example_server_hello]
  by (simp add: be16_def parse_example_server_hello)

subsection \<open>DNS query parsing\<close>

lemma dot_join_Cons: "dot_join (l # ls) = l @ concat (map ((#) 0x2E) ls)"
  by (induction ls arbitrary: l) simp_all

lemma sep_join_Nil [simp]: "sep_join acc [] = acc"
  by (simp add: sep_join_def)

lemma sep_join_Cons_empty: "sep_join [] (l # ls) = sep_join l ls \<or> l = []"
  by (cases ls) (auto simp: sep_join_def dot_join_Cons)

lemma sep_join_step:
  "l \<noteq> [] \<Longrightarrow> sep_join acc (l # ls) = sep_join ((if acc = [] then [] else acc @ [0x2E]) @ l) ls"
  by (simp add: sep_join_def dot_join_Cons)

lemma wr_length: "wr buf i v = Some b \<Longrightarrow> length b = length buf"
  by (auto simp: wr_def split: if_splits)

lemma memcpy_length: "memcpy dst dpos src spos n = Some b \<Longrightarrow> length b = length dst"
  by (auto simp: memcpy_def split: if_splits)

lemma drop_eq_mono:
  assumes "drop a xs = drop a ys" "a \<le> b"
  shows "drop b xs = drop b ys"
proof -
  have "drop b xs = drop (b - a) (drop a xs)" "drop b ys = drop (b - a) (drop a ys)"
    using assms(2) by simp_all
  then show ?thesis using assms(1) by simp
qed

lemma qname_loop_inv:
  assumes "domainPos \<le> capacity" "capacity < length out"
  shows "qname_post data capacity offset domainPos out
           (qname_loop data capacity offset domainPos out)"
  using assms
proof (induction "length data - offset" arbitrary: offset domainPos out rule: less_induct)
  case less
  note dp = less.prems
  show ?case
  proof (cases "offset < length data")
    case False
    then show ?thesis
      using dp
      by (simp add: qname_loop.simps [of data capacity offset] qname_labels.simps [of data offset]
          qname_post_def)
  next
    case inb: True
    define labelLen where "labelLen = data ! offset"
    define n where "n = unat labelLen"
    have r: "rd data offset = Some labelLen"
      using inb by (simp add: rd_def labelLen_def)
    show ?thesis
    proof (cases "labelLen = 0")
      case True
      then show ?thesis
        using dp inb r
        by (simp add: qname_loop.simps [of data capacity offset]
            qname_labels.simps [of data offset] qname_post_def labelLen_def)
    next
      case nz: False
      then have n0: "0 < n"
        by (simp add: n_def unat_gt_0)
      show ?thesis
      proof (cases "labelLen AND 0xC0 \<noteq> 0 \<or> offset + 1 + n > length data
                    \<or> (domainPos > 0 \<and> domainPos \<ge> capacity)")
        case True
        then show ?thesis
          using r nz inb
          by (auto simp: qname_loop.simps [of data capacity offset] qname_post_def n_def)
      next
        case False
        then have np: "labelLen AND 0xC0 = 0" and full: "offset + 1 + n \<le> length data"
          and room: "domainPos = 0 \<or> domainPos < capacity"
          by auto
        have nroom: "\<not> (domainPos > 0 \<and> domainPos \<ge> capacity)"
          using False by simp
        define pos1 where "pos1 = (if domainPos > 0 then domainPos + 1 else domainPos)"
        define out1 where "out1 = (if domainPos > 0 then out[domainPos := 0x2E] else out)"
        have dot: "(if domainPos > 0
                    then map_option (\<lambda>b. (domainPos + 1, b)) (wr out domainPos 0x2E)
                    else Some (domainPos, out)) = Some (pos1, out1)"
          using dp room by (auto simp: wr_def pos1_def out1_def)
        have l1: "length out1 = length out"
          by (simp add: out1_def)
        have p1: "pos1 \<le> capacity"
          using dp room by (auto simp: pos1_def)
        have t1: "take pos1 out1 = (if take domainPos out = [] then [] else take domainPos out @ [0x2E])"
          using dp room
          by (auto simp: pos1_def out1_def take_Suc_conv_app_nth)
        have d1: "drop pos1 out1 = drop pos1 out"
          by (auto simp: pos1_def out1_def)
        define label where "label = take n (drop (offset + 1) data)"
        have ll: "length label = n" "label \<noteq> []"
          using full n0 by (auto simp: label_def)
        have labels: "qname_labels data offset = label # qname_labels data (offset + 1 + n)"
          using inb nz
          by (subst qname_labels.simps) (simp add: labelLen_def n_def label_def)
        show ?thesis
        proof (cases "pos1 + n > capacity")
          case True
          then show ?thesis
            using r nz inb np full nroom dot
            by (auto simp: qname_loop.simps [of data capacity offset] qname_post_def n_def)
        next
          case fits: False
          define out2 where "out2 = take pos1 out1 @ label @ drop (pos1 + n) out1"
          have m: "memcpy out1 pos1 data (offset + 1) n = Some out2"
            using full fits dp l1 by (simp add: memcpy_def out2_def label_def)
          have l2: "length out2 = length out"
            using memcpy_length [OF m] l1 by simp
          have step: "qname_loop data capacity offset domainPos out
                      = qname_loop data capacity (offset + 1 + n) (pos1 + n) out2"
            using r nz inb np full nroom dot fits m
            by (subst qname_loop.simps) (auto simp: n_def)
          have IH: "qname_post data capacity (offset + 1 + n) (pos1 + n) out2
                      (qname_loop data capacity (offset + 1 + n) (pos1 + n) out2)"
            using inb fits dp l2 by (intro less.hyps) auto
          have t2: "take (pos1 + n) out2 = take pos1 out1 @ label"
            using ll p1 dp l1 by (simp add: out2_def)
          have d2: "drop (pos1 + n) out2 = drop (pos1 + n) out1"
            using ll p1 dp l1 by (simp add: out2_def)
          have sj: "sep_join (take (pos1 + n) out2) (qname_labels data (offset + 1 + n))
                    = sep_join (take domainPos out) (qname_labels data offset)"
            unfolding labels t2 t1 using ll by (simp add: sep_join_step)
          have d3: "\<And>k. pos1 + n \<le> k \<Longrightarrow> drop k out2 = drop k out"
            using drop_eq_mono [OF d2] drop_eq_mono [OF d1, of "pos1 + n"]
              drop_eq_mono [of "pos1 + n" out1 out]
            by (metis le_add1)
          have mono: "domainPos \<le> pos1 + n"
            by (simp add: pos1_def)
          show ?thesis
            unfolding step
            using IH sj l2 d3 mono
            by (auto simp: qname_post_def split: option.splits ret.splits)
        qed
      qed
    qed
  qed
qed


lemma rd16_Some: "i + 1 < length data \<Longrightarrow> \<exists>w. rd16 data i = Some w"
  by (simp add: rd16_def rd_def)

lemma rd16_inb: "i + 2 \<le> length data \<Longrightarrow> rd16 data i = Some (be16 (data ! i) (data ! (i + 1)))"
  by (simp add: rd16_def rd_def)

lemma parse_dns_query_ext_cases:
  assumes cap: "cap \<le> length outDomain"
  shows "parse_dns_query_ext data outDomain cap = Some Fail
         \<or> (\<exists>out' n qtype. parse_dns_query_ext data outDomain cap = Some (Ok (out', n, qtype))
              \<and> n < cap \<and> length out' = length outDomain
              \<and> take n out' = dot_join (qname_labels data 12)
              \<and> out' ! n = 0 \<and> drop (n + 1) out' = drop (n + 1) outDomain)"
proof (cases "length data < 12 \<or> cap = 0")
  case True
  then show ?thesis by (auto simp: parse_dns_query_ext_def)
next
  case False
  then have len: "12 \<le> length data" and c0: "0 < cap" by auto
  have q: "rd16 data 4 = Some (be16 (data ! 4) (data ! 5))"
    using rd16_inb [of 4 data] len by simp
  have inv: "qname_post data (cap - 1) 12 0 outDomain (qname_loop data (cap - 1) 12 0 outDomain)"
    using cap c0 by (intro qname_loop_inv) auto
  show ?thesis
  proof (cases "qname_loop data (cap - 1) 12 0 outDomain")
    case None
    then show ?thesis using inv by (simp add: qname_post_def)
  next
    case (Some r)
    show ?thesis
    proof (cases r)
      case Fail
      then show ?thesis
        using Some False q by (simp add: parse_dns_query_ext_def)
    next
      case (Ok st)
      obtain offset' pos' out1 where st: "st = (offset', pos', out1)"
        by (cases st) auto
      have post: "pos' \<le> cap - 1" "length out1 = length outDomain"
        "take pos' out1 = dot_join (qname_labels data 12)"
        "drop pos' out1 = drop pos' outDomain"
        using inv Some Ok st by (simp_all add: qname_post_def sep_join_def)
      have inb: "pos' < length out1" "pos' < cap"
        using post cap c0 by auto
      have w: "wr out1 pos' 0 = Some (out1[pos' := 0])"
        using inb by (simp add: wr_def)
      have dr: "drop (pos' + 1) (out1[pos' := 0]) = drop (pos' + 1) outDomain"
        using drop_eq_mono [OF post(4), of "pos' + 1"] by simp
      show ?thesis
        using Some Ok st False q w post inb dr rd16_inb [of offset' data]
        by (auto simp: parse_dns_query_ext_def)
    qed
  qed
qed

text \<open>
  C10: \<open>parse_dns_query_ext\<close> fails at once when the incoming capacity is 0. When the buffer
  has at least the capacity it is told, the call stays inside both buffers, and on success
  the outgoing length \<open>n\<close> is at most the capacity minus one, the first \<open>n\<close> bytes of the
  buffer are the labels joined by dots, byte \<open>n\<close> is the NUL terminator, \<open>n\<close> is the
  length of the dot-joined name, and no byte after the terminator has changed.
\<close>

theorem parse_dns_query_ext_capacity:
  "parse_dns_query_ext data outDomain 0 = Some Fail
   \<and> (cap \<le> length outDomain \<longrightarrow> parse_dns_query_ext data outDomain cap \<noteq> None)
   \<and> (cap \<le> length outDomain
        \<and> parse_dns_query_ext data outDomain cap = Some (Ok (out', n, qtype)) \<longrightarrow>
          n \<le> cap - 1 \<and> n < cap
          \<and> take n out' = dot_join (qname_labels data 12)
          \<and> n = length (dot_join (qname_labels data 12))
          \<and> out' ! n = 0
          \<and> length out' = length outDomain
          \<and> drop (n + 1) out' = drop (n + 1) outDomain)"
proof (intro conjI impI)
  show "parse_dns_query_ext data outDomain 0 = Some Fail"
    by (simp add: parse_dns_query_ext_def)
next
  assume "cap \<le> length outDomain"
  then show "parse_dns_query_ext data outDomain cap \<noteq> None"
    using parse_dns_query_ext_cases [of cap outDomain data] by auto
next
  assume a: "cap \<le> length outDomain
             \<and> parse_dns_query_ext data outDomain cap = Some (Ok (out', n, qtype))"
  then have r: "n < cap" "length out' = length outDomain"
    "take n out' = dot_join (qname_labels data 12)" "out' ! n = 0"
    "drop (n + 1) out' = drop (n + 1) outDomain"
    using parse_dns_query_ext_cases [of cap outDomain data] by auto
  have "length (take n out') = n"
    using r(1,2) a by simp
  then have l: "n = length (dot_join (qname_labels data 12))"
    using r(3) by simp
  show "n \<le> cap - 1" using r(1) by simp
  show "n < cap" by (rule r(1))
  show "take n out' = dot_join (qname_labels data 12)" by (rule r(3))
  show "n = length (dot_join (qname_labels data 12))" by (rule l)
  show "out' ! n = 0" by (rule r(4))
  show "length out' = length outDomain" by (rule r(2))
  show "drop (n + 1) out' = drop (n + 1) outDomain" by (rule r(5))
qed

lemma parse_example_dns_query:
  "parse_dns_query_ext example_dns_query
     [0xAA, 0xAA, 0xAA, 0xAA, 0xAA, 0xAA, 0xAA, 0xAA, 0xAA, 0xAA, 0xAA, 0xAA, 0xAA, 0xAA]
     12
   = Some (Ok (example_com @ [0x00, 0xAA, 0xAA], 11, 1))"
  by (simp add: parse_dns_query_ext_def example_dns_query_def example_com_def
      qname_loop.simps rd16_def rd_def be16_def wr_def memcpy_def)

theorem parse_dns_query_ext_capacity_witness:
  "parse_dns_query_ext example_dns_query
     [0xAA, 0xAA, 0xAA, 0xAA, 0xAA, 0xAA, 0xAA, 0xAA, 0xAA, 0xAA, 0xAA, 0xAA, 0xAA, 0xAA]
     12
   = Some (Ok (example_com @ [0x00, 0xAA, 0xAA], 11, 1))
   \<and> dot_join (qname_labels example_dns_query 12) = example_com
   \<and> (example_com @ [0x00, 0xAA, 0xAA]) ! 11 = 0"
proof -
  let ?buf = "[0xAA, 0xAA, 0xAA, 0xAA, 0xAA, 0xAA, 0xAA, 0xAA, 0xAA, 0xAA, 0xAA, 0xAA,
               0xAA, 0xAA] :: byte list"
  have h: "12 \<le> length ?buf
           \<and> parse_dns_query_ext example_dns_query ?buf 12
               = Some (Ok (example_com @ [0x00, 0xAA, 0xAA], 11, 1))"
    using parse_example_dns_query by simp
  have t: "take 11 (example_com @ [0x00, 0xAA, 0xAA])
             = dot_join (qname_labels example_dns_query 12)
           \<and> (example_com @ [0x00, 0xAA, 0xAA]) ! 11 = 0"
    using parse_dns_query_ext_capacity
      [of example_dns_query ?buf 12 "example_com @ [0x00, 0xAA, 0xAA]" 11 1] h
    by blast
  have "take 11 (example_com @ [0x00, 0xAA, 0xAA]) = example_com"
    by (simp add: example_com_def)
  then show ?thesis
    using h t by simp
qed

subsection \<open>Executions stay inside the buffers\<close>





















subsection \<open>GeoIP lookup\<close>

lemma rd_inb: "i < length data \<Longrightarrow> rd data i = Some (data ! i)"
  by (simp add: rd_def)

lemma rd32_inb:
  "i + 4 \<le> length data \<Longrightarrow>
   rd32 data i = Some (be32 (data ! i) (data ! (i + 1)) (data ! (i + 2)) (data ! (i + 3)))"
  by (simp add: rd32_def rd_def)

lemma int32_inb: "0 \<le> x \<Longrightarrow> x < 2147483648 \<Longrightarrow> int32 x = Some x"
  by (simp add: int32_def)

lemma entry_offset:
  assumes "m < n" "n \<le> 214748365"
  shows "int32 (int m * 10) = Some (int m * 10)" "nat (8 + int m * 10) = 8 + 10 * m"
  using assms by (simp_all add: int32_def nat_add_distrib nat_mult_distrib)

lemma entry_fields:
  assumes "m < n" "8 + n * 10 \<le> length db"
  shows "entry_rd32 db (int m * 10) 0 = Some (geo_start db m)"
    "entry_rd32 db (int m * 10) 4 = Some (geo_end db m)"
    "entry_rd16 db (int m * 10) 8 = Some (geo_country db m)"
proof -
  have n: "nat (8 + int m * 10) = 8 + 10 * m"
    by (simp add: nat_add_distrib nat_mult_distrib)
  have b: "8 + 10 * m + 10 \<le> length db"
    using assms by simp
  show "entry_rd32 db (int m * 10) 0 = Some (geo_start db m)"
    using b by (simp add: entry_rd32_def n rd32_inb geo_start_def)
  show "entry_rd32 db (int m * 10) 4 = Some (geo_end db m)"
    using b by (simp add: entry_rd32_def n rd32_inb geo_end_def add.assoc)
  show "entry_rd16 db (int m * 10) 8 = Some (geo_country db m)"
    using b by (simp add: entry_rd16_def n rd16_inb geo_country_def add.assoc)
qed

lemma geoip_search_correct:
  assumes room: "8 + n * 10 \<le> length db" and bound: "n \<le> 214748365"
    and sorted: "\<forall>j < n. \<forall>i < j. geo_start db i \<le> geo_start db j"
  shows "0 \<le> lo \<Longrightarrow> hi < int n \<Longrightarrow> lo \<le> hi + 1 \<Longrightarrow> best = lo - 1 \<Longrightarrow>
    (\<forall>i. int i < lo \<longrightarrow> geo_start db i \<le> ip) \<Longrightarrow>
    (\<forall>i < n. hi < int i \<longrightarrow> ip < geo_start db i) \<Longrightarrow>
    \<exists>b. geoip_search db ip lo hi best = Some b \<and> - 1 \<le> b \<and> b < int n
       \<and> (\<forall>i. int i \<le> b \<longrightarrow> geo_start db i \<le> ip)
       \<and> (\<forall>i < n. b < int i \<longrightarrow> ip < geo_start db i)"
proof (induction "nat (hi - lo + 1)" arbitrary: lo hi best rule: less_induct)
  case less
  show ?case
  proof (cases "lo \<le> hi")
    case False
    then have h: "hi = lo - 1" using less.prems by simp
    have "geoip_search db ip lo hi best = Some hi"
      using False less.prems h by (subst geoip_search.simps) simp
    then show ?thesis
      using less.prems h by auto
  next
    case True
    define mid where "mid = lo + (hi - lo) div 2"
    define m where "m = nat mid"
    have mid: "lo \<le> mid" "mid \<le> hi" "0 \<le> mid" "mid = int m" "m < n"
      using True less.prems by (auto simp: mid_def m_def)
    have off: "int32 (mid * 10) = Some (mid * 10)"
      using entry_offset(1) [OF mid(5) bound] mid by simp
    have st: "entry_rd32 db (mid * 10) 0 = Some (geo_start db m)"
      using entry_fields(1) [OF mid(5) room] mid by simp
    show ?thesis
    proof (cases "geo_start db m \<le> ip")
      case le: True
      have step: "geoip_search db ip lo hi best = geoip_search db ip (mid + 1) hi mid"
        using True off st le
        by (subst geoip_search.simps) (simp add: mid_def [symmetric])
      have below: "\<forall>i. int i < mid + 1 \<longrightarrow> geo_start db i \<le> ip"
      proof (intro allI impI)
        fix i assume "int i < mid + 1"
        then have "i \<le> m" using mid by simp
        then have "geo_start db i \<le> geo_start db m"
          using sorted mid(5) by (cases "i = m") auto
        then show "geo_start db i \<le> ip" using le by simp
      qed
      have "\<exists>b. geoip_search db ip (mid + 1) hi mid = Some b \<and> - 1 \<le> b \<and> b < int n
         \<and> (\<forall>i. int i \<le> b \<longrightarrow> geo_start db i \<le> ip)
         \<and> (\<forall>i < n. b < int i \<longrightarrow> ip < geo_start db i)"
        using mid less.prems below by (intro less.hyps) auto
      then show ?thesis unfolding step .
    next
      case gt: False
      have step: "geoip_search db ip lo hi best = geoip_search db ip lo (mid - 1) best"
        using True off st gt
        by (subst geoip_search.simps) (simp add: mid_def [symmetric])
      have above: "\<forall>i < n. mid - 1 < int i \<longrightarrow> ip < geo_start db i"
      proof (intro allI impI)
        fix i assume i: "i < n" "mid - 1 < int i"
        then have "m \<le> i" using mid by simp
        then have "geo_start db m \<le> geo_start db i"
          using sorted i(1) by (cases "i = m") auto
        then show "ip < geo_start db i" using gt by simp
      qed
      have "\<exists>b. geoip_search db ip lo (mid - 1) best = Some b \<and> - 1 \<le> b \<and> b < int n
         \<and> (\<forall>i. int i \<le> b \<longrightarrow> geo_start db i \<le> ip)
         \<and> (\<forall>i < n. b < int i \<longrightarrow> ip < geo_start db i)"
        using mid less.prems above by (intro less.hyps) auto
      then show ?thesis unfolding step .
    qed
  qed
qed


lemma take4: "4 \<le> length db \<Longrightarrow> take 4 db = [db ! 0, db ! 1, db ! 2, db ! 3]"
proof -
  assume "4 \<le> length db"
  then have "take (Suc (Suc (Suc (Suc 0)))) db = [db ! 0, db ! 1, db ! 2, db ! 3]"
    by (cases db; simp; rename_tac a db1; case_tac db1; simp; rename_tac b db2;
        case_tac db2; simp; rename_tac c db3; case_tac db3; simp)
  then show ?thesis by (simp add: eval_nat_numeral)
qed

lemma bad_magic_eq: "4 \<le> length db \<Longrightarrow> bad_magic db = Some (\<not> geo_magic db)"
  by (auto simp: bad_magic_def geo_magic_def take4 rd_def)

lemma count_read:
  "8 \<le> length db \<Longrightarrow> \<exists>count. rd32 db 4 = Some count \<and> unat count = geo_count db"
  by (simp add: rd32_inb geo_count_def)

lemma uint_small: "unat (w :: u32) < 2147483648 \<Longrightarrow> uint w < 2147483648"
proof -
  assume "unat w < 2147483648"
  then have "nat (uint w) < 2147483648" by simp
  then show ?thesis by linarith
qed

lemma sint_as_signed_take_bit: "sint (w :: u32) = signed_take_bit 31 (uint w)"
  using sint_uint [of w] by simp

lemma signed_take_bit_31_id:
  "(0::int) \<le> k \<Longrightarrow> k < 2147483648 \<Longrightarrow> signed_take_bit 31 k = k"
  by (rule signed_take_bit_int_eq_self) simp_all

lemma sint_small: "unat (w :: u32) < 2147483648 \<Longrightarrow> sint w = int (unat w)"
proof -
  assume a: "unat w < 2147483648"
  have "sint w = uint w"
    unfolding sint_as_signed_take_bit using uint_small [OF a]
    by (intro signed_take_bit_31_id) simp_all
  then show ?thesis by simp
qed

lemma geo_unique:
  assumes sorted: "\<forall>j < n. \<forall>i < j. geo_start db i \<le> geo_start db j"
    and disjoint: "\<forall>i < n - 1. geo_end db i < geo_start db (i + 1)"
    and i: "i < n" "geo_start db i \<le> ip" "ip \<le> geo_end db i"
    and b: "b < int n" "\<forall>j. int j \<le> b \<longrightarrow> geo_start db j \<le> ip"
      "\<forall>j < n. b < int j \<longrightarrow> ip < geo_start db j"
  shows "b = int i"
proof -
  have le: "int i \<le> b"
    using b(3) i by (meson leD leI)
  have "\<not> int i < b"
  proof
    assume lt: "int i < b"
    define m where "m = nat b"
    have m: "i < m" "m < n" "int m \<le> b"
      using lt b(1) by (auto simp: m_def)
    have "geo_end db i < geo_start db (i + 1)"
      using disjoint m by simp
    also have "geo_start db (i + 1) \<le> geo_start db m"
      using sorted m by (cases "i + 1 = m") auto
    also have "geo_start db m \<le> ip"
      using b(2) m by simp
    finally show False using i(3) by simp
  qed
  then show ?thesis using le by simp
qed

lemma geoip_lookup_table:
  assumes t: "geo_table db" and bound: "geo_count db \<le> 214748365" and p: "pton s = Some ip"
  shows "(\<forall>i. geo_contains db i ip \<longrightarrow> geoip_lookup pton db s = Some (geo_country db i))
       \<and> ((\<forall>i. \<not> geo_contains db i ip) \<longrightarrow> geoip_lookup pton db s = Some 0)"
proof -
  define n where "n = geo_count db"
  have magic: "geo_magic db" and room: "8 + n * 10 \<le> length db"
    and sorted: "\<forall>j < n. \<forall>i < j. geo_start db i \<le> geo_start db j"
    and disjoint: "\<forall>i < n - 1. geo_end db i < geo_start db (i + 1)"
    using t by (simp_all add: geo_table_def n_def)
  have len: "8 \<le> length db" using room by simp
  obtain count where count: "rd32 db 4 = Some count" "unat count = n"
    using count_read [OF len] by (auto simp: n_def)
  have nb: "n \<le> 214748365" using bound by (simp add: n_def)
  have hi: "int32 (sint count - 1) = Some (int n - 1)"
    using sint_small [of count] count nb by (simp add: int32_def)
  have "\<exists>b. geoip_search db ip 0 (int n - 1) (- 1) = Some b \<and> - 1 \<le> b \<and> b < int n
       \<and> (\<forall>i. int i \<le> b \<longrightarrow> geo_start db i \<le> ip)
       \<and> (\<forall>i < n. b < int i \<longrightarrow> ip < geo_start db i)"
    by (rule geoip_search_correct [OF room nb sorted]) simp_all
  then obtain b where b: "geoip_search db ip 0 (int n - 1) (- 1) = Some b" "- 1 \<le> b" "b < int n"
    "\<forall>j. int j \<le> b \<longrightarrow> geo_start db j \<le> ip"
    "\<forall>j < n. b < int j \<longrightarrow> ip < geo_start db j"
    by (elim exE conjE) (rule that)
  have start: "geoip_lookup pton db s =
      (if b < 0 then Some 0
       else do {
         off \<leftarrow> int32 (b * 10);
         endIP \<leftarrow> entry_rd32 db off 4;
         if ip > endIP then Some 0 else entry_rd16 db off 8
       })"
  proof -
    have c1: "\<not> length db < 8" using len by simp
    have bm: "bad_magic db = Some False"
      using len magic by (simp add: bad_magic_eq)
    have c2: "\<not> length db < 8 + unat count * 10"
      using room count(2) by simp
    show ?thesis
      unfolding geoip_lookup_def
      by (simp only: c1 bm count(1) c2 p hi b(1) if_False bind.bind_lunit option.case)
  qed
  show ?thesis
  proof (cases "b < 0")
    case True
    then have "geoip_lookup pton db s = Some 0" by (simp add: start)
    moreover have "\<not> geo_contains db i ip" for i
      using geo_unique [OF sorted disjoint _ _ _ b(3,4,5), of i] True
      by (auto simp: geo_contains_def n_def)
    ultimately show ?thesis by simp
  next
    case False
    define m where "m = nat b"
    have m: "b = int m" "m < n" using False b(3) by (auto simp: m_def)
    have res: "geoip_lookup pton db s =
        (if ip > geo_end db m then Some 0 else Some (geo_country db m))"
      using False entry_offset(1) [OF m(2) nb] entry_fields(2,3) [OF m(2) room]
      by (simp add: start m(1))
    have uniq: "i = m" if "geo_contains db i ip" for i
      using geo_unique [OF sorted disjoint _ _ _ b(3,4,5), of i] that m
      by (auto simp: geo_contains_def n_def)
    show ?thesis
    proof (cases "ip > geo_end db m")
      case True
      then have "\<not> geo_contains db i ip" for i
        using uniq [of i] by (auto simp: geo_contains_def)
      then show ?thesis using True res by simp
    next
      case inr: False
      have c: "geo_contains db m ip"
        using inr b(4) m by (auto simp: geo_contains_def n_def)
      have r: "geoip_lookup pton db s = Some (geo_country db m)"
        using inr res by simp
      show ?thesis
      proof (intro conjI allI impI)
        fix i
        assume "geo_contains db i ip"
        then have "i = m" by (rule uniq)
        then show "geoip_lookup pton db s = Some (geo_country db i)"
          using r by simp
      next
        assume "\<forall>i. \<not> geo_contains db i ip"
        then show "geoip_lookup pton db s = Some 0"
          using c by simp
      qed
    qed
  qed
qed

lemma geoip_lookup_invalid:
  "\<not> geo_magic db \<or> length db < 8 + geo_count db * 10 \<or> pton s = None
   \<Longrightarrow> geoip_lookup pton db s = Some 0"
proof (cases "length db < 8")
  case True
  then show ?thesis by (simp add: geoip_lookup_def)
next
  case False
  assume a: "\<not> geo_magic db \<or> length db < 8 + geo_count db * 10 \<or> pton s = None"
  obtain count where count: "rd32 db 4 = Some count" "unat count = geo_count db"
    using count_read [of db] False by auto
  show ?thesis
    using a False count
    by (auto simp: geoip_lookup_def bad_magic_eq)
qed

lemma be32_u32_bytes:
  "be32 (ucast (drop_bit 24 w)) (ucast (drop_bit 16 w)) (ucast (drop_bit 8 w)) (ucast w) = w"
  unfolding be32_def
proof (rule bit_word_eqI)
  fix n
  assume "n < LENGTH(32)"
  then consider "n < 8" | "8 \<le> n" "n < 16" | "16 \<le> n" "n < 24" | "24 \<le> n" "n < 32"
    by fastforce
  then show "bit (push_bit 24 (ucast (ucast (drop_bit 24 w :: u32) :: byte)) OR
                push_bit 16 (ucast (ucast (drop_bit 16 w) :: byte)) OR
                push_bit 8 (ucast (ucast (drop_bit 8 w) :: byte)) OR ucast (ucast w :: byte) :: u32) n
             = bit w n"
    by cases (auto simp: bit_simps)
qed

lemma be16_bytes:
  "be16 (ucast (drop_bit 8 (c :: u16))) (ucast c) = c"
  unfolding be16_def
proof (rule bit_word_eqI)
  fix n
  assume "n < LENGTH(16)"
  then consider "n < 8" | "8 \<le> n" "n < 16"
    by fastforce
  then show "bit (push_bit 8 (ucast (ucast (drop_bit 8 c) :: byte)) OR ucast (ucast c :: byte) :: u16) n
             = bit c n"
    by cases (auto simp: bit_simps)
qed

lemma length_concat_blocks:
  "(\<And>i. length (e i) = 10) \<Longrightarrow> length (concat (map e [0..<n])) = 10 * n"
  by (induction n) simp_all

lemma nth_concat_blocks:
  assumes "\<And>i. length (e i) = 10"
  shows "i < n \<Longrightarrow> k < 10 \<Longrightarrow> concat (map e [0..<n]) ! (10 * i + k) = e i ! k"
proof (induction n)
  case 0
  then show ?case by simp
next
  case (Suc n)
  have l: "length (concat (map e [0..<n])) = 10 * n"
    using assms by (rule length_concat_blocks)
  show ?case
  proof (cases "i < n")
    case True
    then have "10 * i + k < 10 * n" using Suc.prems by simp
    then show ?thesis
      using Suc True by (simp add: nth_append l)
  next
    case False
    then have "i = n" using Suc.prems by simp
    then show ?thesis
      using Suc.prems assms by (simp add: nth_append l)
  qed
qed

lemma geo_db_length:
  "(\<And>i. length (e i) = 10) \<Longrightarrow> length (geo_db c e n) = 8 + 10 * n"
  by (simp add: geo_db_def u32_bytes_def length_concat_blocks)

lemma geo_db_entry:
  assumes "\<And>i. length (e i) = 10" "i < n" "k < 10"
  shows "geo_db c e n ! (8 + 10 * i + k) = e i ! k"
proof -
  have "geo_db c e n = ([0x47, 0x45, 0x4F, 0x31] @ u32_bytes c) @ concat (map e [0..<n])"
    by (simp add: geo_db_def)
  moreover have "length ([0x47, 0x45, 0x4F, 0x31] @ u32_bytes c) = 8"
    by (simp add: u32_bytes_def)
  ultimately have "geo_db c e n ! (8 + (10 * i + k)) = concat (map e [0..<n]) ! (10 * i + k)"
    by (metis nth_append_length_plus)
  then show ?thesis
    using nth_concat_blocks [OF assms] by (simp add: add.assoc)
qed

lemma geo_db_header:
  "geo_db c e n ! 0 = 0x47" "geo_db c e n ! 1 = 0x45" "geo_db c e n ! 2 = 0x4F"
  "geo_db c e n ! 3 = 0x31"
  "geo_db c e n ! 4 = ucast (drop_bit 24 c)" "geo_db c e n ! 5 = ucast (drop_bit 16 c)"
  "geo_db c e n ! 6 = ucast (drop_bit 8 c)" "geo_db c e n ! 7 = ucast c"
  by (simp_all add: geo_db_def u32_bytes_def)

lemma geo_db_count: "geo_count (geo_db c e n) = unat c"
  by (simp add: geo_count_def geo_db_header be32_u32_bytes)

lemma geo_db_magic: "geo_magic (geo_db c e n)"
  by (simp add: geo_magic_def geo_db_def)

lemma geo_entry_length: "length (geo_entry s e c) = 10"
  by (simp add: geo_entry_def u32_bytes_def)

lemma geo_db_fields:
  assumes "i < n"
  shows "geo_start (geo_db c (\<lambda>i. geo_entry (s i) (e i) (cc i)) n) i = s i"
    "geo_end (geo_db c (\<lambda>i. geo_entry (s i) (e i) (cc i)) n) i = e i"
    "geo_country (geo_db c (\<lambda>i. geo_entry (s i) (e i) (cc i)) n) i = cc i"
proof -
  let ?db = "geo_db c (\<lambda>i. geo_entry (s i) (e i) (cc i)) n"
  have nth: "\<And>k. k < 10 \<Longrightarrow> ?db ! (8 + 10 * i + k) = geo_entry (s i) (e i) (cc i) ! k"
    using geo_db_entry [of "\<lambda>i. geo_entry (s i) (e i) (cc i)" i n _ c] assms
    by (simp add: geo_entry_length)
  show "geo_start ?db i = s i"
    using nth [of 0] nth [of 1] nth [of 2] nth [of 3]
    by (simp add: geo_start_def geo_entry_def u32_bytes_def be32_u32_bytes)
  show "geo_end ?db i = e i"
    using nth [of 4] nth [of 5] nth [of 6] nth [of 7]
    by (simp add: geo_end_def geo_entry_def u32_bytes_def be32_u32_bytes)
  show "geo_country ?db i = cc i"
    using nth [of 8] nth [of 9]
    by (simp add: geo_country_def geo_entry_def u32_bytes_def be16_bytes)
qed

lemma word_of_nat_mono32:
  "i \<le> j \<Longrightarrow> j < 4294967296 \<Longrightarrow> (of_nat i :: u32) \<le> of_nat j"
  by (simp add: word_le_nat_alt unat_of_nat)

lemma word_of_nat_strict32:
  "i < j \<Longrightarrow> j < 4294967296 \<Longrightarrow> (of_nat i :: u32) < of_nat j"
  by (simp add: word_less_nat_alt unat_of_nat)

lemma word_of_nat_succ32:
  "i < 4294967295 \<Longrightarrow> (of_nat i :: u32) < 1 + of_nat i"
  using word_of_nat_strict32 [of i "Suc i"] by simp

lemma geo_db_rd_count: "rd32 (geo_db c e n) 4 = Some c"
proof -
  have "8 \<le> length (geo_db c e n)"
    by (simp add: geo_db_def u32_bytes_def)
  then show ?thesis
    by (simp add: rd32_inb geo_db_header be32_u32_bytes)
qed

lemma huge_table_length: "length huge_table = 21474836498"
  by (simp add: huge_table_def geo_db_length geo_entry_length)

lemma huge_table_count: "geo_count huge_table = 2147483649"
  by (simp add: huge_table_def geo_db_count)

lemma huge_table_fields:
  "i < 2147483649 \<Longrightarrow> geo_start huge_table i = of_nat i"
  "i < 2147483649 \<Longrightarrow> geo_end huge_table i = of_nat i"
  "i < 2147483649 \<Longrightarrow> geo_country huge_table i = 0x4141"
  unfolding huge_table_def
  by (simp_all add: geo_db_fields)

lemma huge_table_ok: "geo_table huge_table"
proof -
  have m: "geo_magic huge_table"
    by (simp add: huge_table_def geo_db_magic)
  show ?thesis
    unfolding geo_table_def huge_table_count
    using huge_table_length m
    by (auto simp: huge_table_fields word_of_nat_mono32 word_of_nat_succ32)
qed

lemma dotted_zero: "dotted_quad ''0.0.0.0'' = Some 0"
  by (simp add: dotted_quad_def digit_of_def Let_def be32_def)

lemma huge_table_lookup: "geoip_lookup dotted_quad huge_table ''0.0.0.0'' = Some 0"
proof -
  have len: "8 \<le> length huge_table" "\<not> length huge_table < 8"
    using huge_table_length by simp_all
  have bm: "bad_magic huge_table = Some False"
    using len by (simp add: bad_magic_eq huge_table_def geo_db_magic)
  have c: "rd32 huge_table 4 = Some 0x80000001"
    unfolding huge_table_def by (rule geo_db_rd_count)
  have c2: "\<not> length huge_table < 8 + unat (0x80000001 :: u32) * 10"
    using huge_table_length by simp
  have hi: "int32 (sint (0x80000001 :: u32) - 1) = Some (- 2147483648)"
    by (simp add: int32_def)
  have s: "geoip_search huge_table 0 0 (- 2147483648) (- 1) = Some (- 1)"
    by (simp add: geoip_search.simps)
  show ?thesis
    unfolding geoip_lookup_def
    by (simp only: len bm c c2 dotted_zero hi s if_False bind.bind_lunit option.case) simp
qed


lemma geoip_search_total:
  assumes room: "8 + n * 10 \<le> length db" and bound: "n \<le> 214748365"
  shows "0 \<le> lo \<Longrightarrow> hi < int n \<Longrightarrow> - 1 \<le> best \<Longrightarrow> best < int n \<Longrightarrow>
    \<exists>b. geoip_search db ip lo hi best = Some b \<and> - 1 \<le> b \<and> b < int n"
proof (induction "nat (hi - lo + 1)" arbitrary: lo hi best rule: less_induct)
  case less
  show ?case
  proof (cases "lo \<le> hi")
    case False
    then show ?thesis
      using less.prems by (subst geoip_search.simps) simp
  next
    case True
    define mid where "mid = lo + (hi - lo) div 2"
    define m where "m = nat mid"
    have mid: "lo \<le> mid" "mid \<le> hi" "0 \<le> mid" "mid = int m" "m < n"
      using True less.prems by (auto simp: mid_def m_def)
    have off: "int32 (mid * 10) = Some (mid * 10)"
      using entry_offset(1) [OF mid(5) bound] mid by simp
    have st: "entry_rd32 db (mid * 10) 0 = Some (geo_start db m)"
      using entry_fields(1) [OF mid(5) room] mid by simp
    have step: "geoip_search db ip lo hi best =
        (if geo_start db m \<le> ip then geoip_search db ip (mid + 1) hi mid
         else geoip_search db ip lo (mid - 1) best)"
      using True off st
      by (subst geoip_search.simps) (simp add: mid_def [symmetric])
    have up: "\<exists>b. geoip_search db ip (mid + 1) hi mid = Some b \<and> - 1 \<le> b \<and> b < int n"
      using mid less.prems by (intro less.hyps) auto
    have down: "\<exists>b. geoip_search db ip lo (mid - 1) best = Some b \<and> - 1 \<le> b \<and> b < int n"
      using mid less.prems by (intro less.hyps) auto
    show ?thesis
      unfolding step using up down by simp
  qed
qed

lemma geoip_lookup_total:
  assumes bound: "geo_count db \<le> 214748365"
  shows "geoip_lookup pton db s \<noteq> None"
proof (cases "\<not> geo_magic db \<or> length db < 8 + geo_count db * 10 \<or> pton s = None")
  case True
  then show ?thesis by (simp add: geoip_lookup_invalid)
next
  case False
  define n where "n = geo_count db"
  have magic: "geo_magic db" and room: "8 + n * 10 \<le> length db"
    using False by (simp_all add: n_def)
  obtain ip where p: "pton s = Some ip"
    using False by auto
  have len: "8 \<le> length db" using room by simp
  obtain count where count: "rd32 db 4 = Some count" "unat count = n"
    using count_read [OF len] by (auto simp: n_def)
  have nb: "n \<le> 214748365" using bound by (simp add: n_def)
  have hi: "int32 (sint count - 1) = Some (int n - 1)"
    using sint_small [of count] count nb by (simp add: int32_def)
  have "\<exists>b. geoip_search db ip 0 (int n - 1) (- 1) = Some b \<and> - 1 \<le> b \<and> b < int n"
    by (rule geoip_search_total [OF room nb]) simp_all
  then obtain b where b: "geoip_search db ip 0 (int n - 1) (- 1) = Some b" "- 1 \<le> b" "b < int n"
    by (elim exE conjE) (rule that)
  have start: "geoip_lookup pton db s =
      (if b < 0 then Some 0
       else do {
         off \<leftarrow> int32 (b * 10);
         endIP \<leftarrow> entry_rd32 db off 4;
         if ip > endIP then Some 0 else entry_rd16 db off 8
       })"
  proof -
    have c1: "\<not> length db < 8" using len by simp
    have bm: "bad_magic db = Some False"
      using len magic by (simp add: bad_magic_eq)
    have c2: "\<not> length db < 8 + unat count * 10"
      using room count(2) by simp
    show ?thesis
      unfolding geoip_lookup_def
      by (simp only: c1 bm count(1) c2 p hi b(1) if_False bind.bind_lunit option.case)
  qed
  show ?thesis
  proof (cases "b < 0")
    case True
    then show ?thesis by (simp add: start)
  next
    case nn: False
    define m where "m = nat b"
    have m: "b = int m" "m < n" using nn b(3) by (auto simp: m_def)
    have "geoip_lookup pton db s =
        (if ip > geo_end db m then Some 0 else Some (geo_country db m))"
      using nn entry_offset(1) [OF m(2) nb] entry_fields(2,3) [OF m(2) room]
      by (simp add: start m(1))
    then show ?thesis by simp
  qed
qed

lemma example_geo_table_ok: "geo_table example_geo_table \<and> geo_count example_geo_table = 3"
  by code_simp

lemma example_geo_table_fields:
  "geo_start example_geo_table 1 = 11" "geo_end example_geo_table 1 = 20"
  "geo_country example_geo_table 1 = 0x4242"
  by (simp_all add: geo_start_def geo_end_def geo_country_def example_geo_table_def be32_def
      be16_def)

lemma example_dotted:
  "dotted_quad ''0.0.0.11'' = Some 11" "dotted_quad ''0.0.0.x'' = None"
  "dotted_quad ''0.0.0.011'' = None"
  by (simp_all add: dotted_quad_def digit_of_def Let_def be32_def)

text \<open>
  The lookup on the three-entry table: \<open>0.0.0.11\<close> lies in the second entry, whose country
  code is \<open>"BB"\<close>; a string that is not an address gives 0.
\<close>

lemma geoip_lookup_example:
  "geoip_lookup dotted_quad example_geo_table ''0.0.0.11'' = Some 0x4242
   \<and> geoip_lookup dotted_quad example_geo_table ''0.0.0.x'' = Some 0"
proof -
  have c: "geo_contains example_geo_table 1 11"
    by code_simp
  have "geoip_lookup dotted_quad example_geo_table ''0.0.0.11''
        = Some (geo_country example_geo_table 1)"
    using geoip_lookup_table [of example_geo_table dotted_quad "''0.0.0.11''" 11]
      example_geo_table_ok example_dotted(1) c
    by simp
  moreover have "geoip_lookup dotted_quad example_geo_table ''0.0.0.x'' = Some 0"
    using geoip_lookup_invalid [of example_geo_table dotted_quad "''0.0.0.x''"]
      example_dotted(2)
    by simp
  ultimately show ?thesis
    by (simp only: example_geo_table_fields)
qed

text \<open>
  C3 at \<open>huge_table\<close>: the table has the magic, room for its \<open>2 ^ 31 + 1\<close> entries,
  ascending start addresses and disjoint ranges, and its entry 0 is \<open>(0, 0, "AA")\<close>, which
  contains the address \<open>0.0.0.0\<close>. The lookup returns 0, not \<open>"AA"\<close>: \<^verbatim>\<open>(int)count\<close> is
  negative, so the search loop is never entered.
\<close>

theorem geoip_lookup_huge_table_returns_zero:
  "geo_table huge_table
   \<and> length huge_table = 8 + 2147483649 * 10
   \<and> dotted_quad ''0.0.0.0'' = Some 0
   \<and> geo_contains huge_table 0 0
   \<and> geo_country huge_table 0 = 0x4141
   \<and> geoip_lookup dotted_quad huge_table ''0.0.0.0'' = Some 0"
  by (simp add: huge_table_ok dotted_zero huge_table_lookup geo_contains_def huge_table_count
      huge_table_fields huge_table_length)

theorem geoip_lookup_huge_table_returns_zero_witness:
  "geo_start huge_table 0 \<le> geo_start huge_table 1
   \<and> geo_end huge_table 0 < geo_start huge_table 1
   \<and> geo_contains huge_table 0 0
   \<and> geo_country huge_table 0 = 0x4141
   \<and> geoip_lookup dotted_quad huge_table ''0.0.0.0'' = Some 0"
proof -
  note t = geoip_lookup_huge_table_returns_zero
  have sorted: "\<forall>j < geo_count huge_table. \<forall>i < j. geo_start huge_table i \<le> geo_start huge_table j"
    and disjoint: "\<forall>i < geo_count huge_table - 1. geo_end huge_table i < geo_start huge_table (i + 1)"
    using t [THEN conjunct1] by (simp_all add: geo_table_def)
  have a: "geo_start huge_table 0 \<le> geo_start huge_table 1"
    by (rule sorted [rule_format, of 1 0]) (simp_all add: huge_table_count)
  have "geo_end huge_table 0 < geo_start huge_table (0 + 1)"
    by (rule disjoint [rule_format, of 0]) (simp add: huge_table_count)
  then have b: "geo_end huge_table 0 < geo_start huge_table 1"
    by simp
  show ?thesis
    using a b t by blast
qed

subsection \<open>The parsers and the ends of their buffers\<close>




























subsection \<open>DNS response generation\<close>

text \<open>
  C5 at the query whose QNAME is a lone compression pointer, with no fake address and an
  18-byte output buffer: the walk consumes one byte of the pointer, not two, so the question
  is taken to end at offset \<open>12 + 1 + 4 = 17\<close>. The response is 17 bytes long and lacks the
  last byte of QCLASS (byte 17 of the output buffer keeps its old value \<open>0xAA\<close>).
\<close>

theorem generate_dns_response_pointer_qname:
  "generate_dns_response example_pointer_query None 1
     [0xAA, 0xAA, 0xAA, 0xAA, 0xAA, 0xAA, 0xAA, 0xAA, 0xAA, 0xAA, 0xAA, 0xAA,
      0xAA, 0xAA, 0xAA, 0xAA, 0xAA, 0xAA]
   = Some (Ok (17,
       [0x12, 0x34, 0x85, 0x80, 0x00, 0x01, 0x00, 0x00, 0x00, 0x00, 0x00, 0x00,
        0xC0, 0x0C, 0x00, 0x01, 0x00, 0xAA]))"
  by (simp add: generate_dns_response_def skip_qname.simps rd_def memcpy_def wr_def
      int_of_size_def example_pointer_query_def answer_shape_def nodata_header_writes_def)

subsection \<open>Key schedule\<close>

lemma digest_length_pos: "0 < digest_length alg"
  by (cases alg) (simp_all add: digest_length_def)

lemma hkdf_T_length:
  "crypto_ok P \<Longrightarrow> 0 < i \<Longrightarrow> length (hkdf_T P alg prk info i) = digest_length alg"
  by (cases i) (simp_all add: crypto_ok_def)

lemma hkdf_blocks_Suc:
  "hkdf_blocks P alg prk info (Suc n)
   = hkdf_blocks P alg prk info n @ hkdf_T P alg prk info (Suc n)"
  by (simp add: hkdf_blocks_def)

lemma hkdf_blocks_length:
  "crypto_ok P \<Longrightarrow> length (hkdf_blocks P alg prk info n) = n * digest_length alg"
proof (induction n)
  case 0
  then show ?case by (simp add: hkdf_blocks_def)
next
  case (Suc n)
  then show ?case
    by (simp add: hkdf_blocks_Suc hkdf_T_length del: hkdf_T.simps)
qed

lemma hkdf_blocks_prefix:
  "crypto_ok P \<Longrightarrow> n \<le> m \<Longrightarrow>
   take (n * digest_length alg) (hkdf_blocks P alg prk info m) = hkdf_blocks P alg prk info n"
proof (induction m)
  case 0
  then show ?case by (simp add: hkdf_blocks_def)
next
  case (Suc m)
  show ?case
  proof (cases "n = Suc m")
    case True
    then show ?thesis
      using Suc.prems hkdf_blocks_length [of P alg prk info "Suc m"] by simp
  next
    case False
    then have "n \<le> m" using Suc.prems by simp
    then have "n * digest_length alg \<le> length (hkdf_blocks P alg prk info m)"
      using Suc.prems by (simp add: hkdf_blocks_length)
    then show ?thesis
      using Suc \<open>n \<le> m\<close> by (simp add: hkdf_blocks_Suc)
  qed
qed

text \<open>The state of the loop after \<open>k\<close> whole blocks.\<close>

lemma hkdf_expand_loop_blocks:
  assumes ok: "crypto_ok P" and h: "hash_len = digest_length alg"
  shows "k * hash_len \<le> len \<Longrightarrow> len \<le> m * hash_len \<Longrightarrow>
    hkdf_expand_loop P alg hash_len prk info len
      (hkdf_T P alg prk info k) (if k = 0 then 0 else hash_len) (k * hash_len) (of_nat (Suc k))
      (hkdf_blocks P alg prk info k)
    = Some (take len (hkdf_blocks P alg prk info m))"
proof (induction "len - k * hash_len" arbitrary: k rule: less_induct)
  case less
  have hp: "0 < hash_len" using h digest_length_pos by simp
  have km: "k \<le> m"
    using less.prems hp by (metis le_trans mult_le_cancel2 not_le linorder_le_cases)
  show ?case
  proof (cases "k * hash_len < len")
    case False
    then have e: "len = k * hash_len" using less.prems by simp
    have "take len (hkdf_blocks P alg prk info m) = hkdf_blocks P alg prk info k"
      unfolding e h using hkdf_blocks_prefix [OF ok km] by simp
    then show ?thesis
      using False by (subst hkdf_expand_loop.simps) simp
  next
    case True
    have tk: "(if (if k = 0 then 0 else hash_len) > 0
               then take (if k = 0 then 0 else hash_len) (hkdf_T P alg prk info k) else [])
              = hkdf_T P alg prk info k"
      using hkdf_T_length [OF ok, of k alg prk info] h hp
      by (cases k) (simp_all del: hkdf_T.simps(2))
    have t1: "CCHmac P alg prk (hkdf_T P alg prk info k @ info @ [of_nat (Suc k)])
              = hkdf_T P alg prk info (Suc k)"
      by simp
    have l1: "length (hkdf_T P alg prk info (Suc k)) = hash_len"
      using hkdf_T_length [OF ok, of "Suc k"] h by simp
    have cnt: "(of_nat (Suc k) :: byte) + 1 = of_nat (Suc (Suc k))"
      "1 + (of_nat (Suc k) :: byte) = of_nat (Suc (Suc k))"
      by simp_all
    show ?thesis
    proof (cases "k * hash_len + hash_len > len")
      case part: True
      have km': "Suc k \<le> m"
        using part less.prems True hp
        by (metis Suc_leI km le_neq_implies_less not_le)
      have step: "hkdf_expand_loop P alg hash_len prk info len
          (hkdf_T P alg prk info k) (if k = 0 then 0 else hash_len) (k * hash_len)
          (of_nat (Suc k)) (hkdf_blocks P alg prk info k)
        = hkdf_expand_loop P alg hash_len prk info len
          (hkdf_T P alg prk info (Suc k)) hash_len (k * hash_len + (len - k * hash_len))
          (of_nat (Suc (Suc k)))
          (hkdf_blocks P alg prk info k
             @ take (len - k * hash_len) (hkdf_T P alg prk info (Suc k)))"
        using True part
        by (subst hkdf_expand_loop.simps) (simp only: tk t1 cnt Let_def if_True)
      have fin: "hkdf_expand_loop P alg hash_len prk info len
          (hkdf_T P alg prk info (Suc k)) hash_len (k * hash_len + (len - k * hash_len))
          (of_nat (Suc (Suc k)))
          (hkdf_blocks P alg prk info k
             @ take (len - k * hash_len) (hkdf_T P alg prk info (Suc k)))
        = Some (hkdf_blocks P alg prk info k
             @ take (len - k * hash_len) (hkdf_T P alg prk info (Suc k)))"
        using True by (subst hkdf_expand_loop.simps) simp
      have "take len (hkdf_blocks P alg prk info m)
            = take len (take (Suc k * hash_len) (hkdf_blocks P alg prk info m))"
        using part by simp
      also have "\<dots> = take len (hkdf_blocks P alg prk info (Suc k))"
        using hkdf_blocks_prefix [OF ok km', of alg prk info] h by simp
      also have "\<dots> = hkdf_blocks P alg prk info k
             @ take (len - k * hash_len) (hkdf_T P alg prk info (Suc k))"
        using True hkdf_blocks_length [OF ok, of alg prk info k] h
        by (simp add: hkdf_blocks_Suc)
      finally show ?thesis
        unfolding step fin by simp
    next
      case whole: False
      have step: "hkdf_expand_loop P alg hash_len prk info len
          (hkdf_T P alg prk info k) (if k = 0 then 0 else hash_len) (k * hash_len)
          (of_nat (Suc k)) (hkdf_blocks P alg prk info k)
        = hkdf_expand_loop P alg hash_len prk info len
          (hkdf_T P alg prk info (Suc k)) (if Suc k = 0 then 0 else hash_len)
          (Suc k * hash_len) (of_nat (Suc (Suc k))) (hkdf_blocks P alg prk info (Suc k))"
        using True whole l1
        by (subst hkdf_expand_loop.simps)
           (simp add: tk t1 cnt Let_def hkdf_blocks_Suc add.commute del: hkdf_T.simps of_nat_Suc)
      show ?thesis
        unfolding step
        using whole hp less.prems True
        by (intro less.hyps) (auto simp: algebra_simps)
    qed
  qed
qed


lemma hkdf_expand_blocks:
  assumes ok: "crypto_ok P" and h: "hash_len = digest_length alg" and m: "len \<le> m * hash_len"
  shows "hkdf_expand P alg hash_len prk info len = Some (take len (hkdf_blocks P alg prk info m))"
proof -
  have "hkdf_expand_loop P alg hash_len prk info len
      (hkdf_T P alg prk info 0) (if (0::nat) = 0 then 0 else hash_len) (0 * hash_len)
      (of_nat (Suc 0)) (hkdf_blocks P alg prk info 0)
    = Some (take len (hkdf_blocks P alg prk info m))"
    using m by (intro hkdf_expand_loop_blocks [OF ok h]) simp_all
  then show ?thesis
    by (simp add: hkdf_expand_def hkdf_blocks_def)
qed

lemma ceil_blocks: "0 < h \<Longrightarrow> (L :: nat) \<le> ((L + h - 1) div h) * h"
proof -
  assume h: "0 < h"
  have "L + h - 1 = ((L + h - 1) div h) * h + (L + h - 1) mod h"
    by simp
  moreover have "(L + h - 1) mod h < h"
    using h by simp
  ultimately show ?thesis
    by linarith
qed

lemma HKDF_Expand_blocks:
  "HKDF_Expand P alg prk info L
   = take L (hkdf_blocks P alg prk info ((L + digest_length alg - 1) div digest_length alg))"
  unfolding HKDF_Expand_def hkdf_blocks_def ..

lemma hkdf_expand_eq:
  assumes ok: "crypto_ok P" and h: "hash_len = digest_length alg"
  shows "hkdf_expand P alg hash_len prk info L = Some (HKDF_Expand P alg prk info L)"
proof -
  have "L \<le> ((L + hash_len - 1) div hash_len) * hash_len"
    using h digest_length_pos by (intro ceil_blocks) simp
  from hkdf_expand_blocks [OF ok h this] show ?thesis
    by (simp only: HKDF_Expand_blocks h)
qed

lemma HKDF_Expand_length:
  assumes ok: "crypto_ok P"
  shows "length (HKDF_Expand P alg prk info L) = L"
proof -
  have "L \<le> ((L + digest_length alg - 1) div digest_length alg) * digest_length alg"
    using digest_length_pos by (intro ceil_blocks) simp
  then show ?thesis
    unfolding HKDF_Expand_blocks
    by (simp only: length_take hkdf_blocks_length [OF ok] min_absorb2)
qed

lemma hkdf_expand_take:
  assumes ok: "crypto_ok P" and h: "hash_len = digest_length alg" and le: "L' \<le> L"
  shows "hkdf_expand P alg hash_len prk info L'
         = Some (take L' (HKDF_Expand P alg prk info L))"
proof -
  define m where "m = (L + hash_len - 1) div hash_len"
  have m: "L \<le> m * hash_len"
    unfolding m_def using h digest_length_pos by (intro ceil_blocks) simp
  then have m': "L' \<le> m * hash_len" using le by simp
  have "HKDF_Expand P alg prk info L = take L (hkdf_blocks P alg prk info m)"
    by (simp only: HKDF_Expand_blocks m_def h)
  then have "take L' (HKDF_Expand P alg prk info L) = take L' (hkdf_blocks P alg prk info m)"
    using le by simp
  then show ?thesis
    using hkdf_expand_blocks [OF ok h m'] by simp
qed

text \<open>
  C8: for every PRK, every info and all lengths \<open>L' \<le> L\<close>, \<open>hkdf_expand\<close> returns, for
  \<open>L\<close>, the counter-based expansion \<open>T(1) || T(2) || ...\<close> truncated to \<open>L\<close> bytes, and for
  \<open>L'\<close> the first \<open>L'\<close> bytes of that output. The primitives are any functions with the
  output sizes of the hash; within the expansion bound \<open>L \<le> 255 * hash_len\<close> the one-byte
  counter of the code does not wrap (beyond it, the code and \<open>hkdf_T\<close> wrap alike).
\<close>

theorem hkdf_expand_prefix:
  "crypto_ok P \<and> hash_len = digest_length alg \<and> L' \<le> L \<longrightarrow>
     hkdf_expand P alg hash_len prk info L = Some (HKDF_Expand P alg prk info L)
     \<and> length (HKDF_Expand P alg prk info L) = L
     \<and> hkdf_expand P alg hash_len prk info L'
         = Some (take L' (HKDF_Expand P alg prk info L))"
  using hkdf_expand_eq [of P hash_len alg prk info L] HKDF_Expand_length [of P alg prk info L]
    hkdf_expand_take [of P hash_len alg L' L prk info]
  by blast

lemma toy_crypto_ok: "crypto_ok toy_crypto"
  by (simp add: crypto_ok_def toy_crypto_def)

lemma toy_expand_40:
  "hkdf_expand toy_crypto kCCHmacAlgSHA256 32 [1, 2] [3] 40
   = Some (replicate 32 7 @ replicate 8 232)"
  by (simp add: hkdf_expand_def hkdf_expand_loop.simps toy_crypto_def digest_length_def
      sum_list_replicate)

lemma toy_expand_10:
  "hkdf_expand toy_crypto kCCHmacAlgSHA256 32 [1, 2] [3] 10 = Some (replicate 10 7)"
  by (simp add: hkdf_expand_def hkdf_expand_loop.simps toy_crypto_def digest_length_def)

theorem hkdf_expand_prefix_witness:
  "hkdf_expand toy_crypto kCCHmacAlgSHA256 32 [1, 2] [3] 40
     = Some (replicate 32 7 @ replicate 8 232)
   \<and> hkdf_expand toy_crypto kCCHmacAlgSHA256 32 [1, 2] [3] 10
     = Some (take 10 (replicate 32 7 @ replicate 8 232))
   \<and> HKDF_Expand toy_crypto kCCHmacAlgSHA256 [1, 2] [3] 40
     = replicate 32 7 @ replicate 8 232"
  using hkdf_expand_prefix [of toy_crypto 32 kCCHmacAlgSHA256 10 40 "[1, 2]" "[3]"]
    toy_crypto_ok toy_expand_40
  by (simp add: digest_length_def)

lemma CC_LONG_of_mod: "CC_LONG_of n = n mod 4294967296"
  by (simp add: CC_LONG_of_def unat_of_nat)

lemma suite_params_cases:
  assumes "get_suite_params cs = (alg, h, k)"
  shows "h = digest_length alg" "h \<le> 48" "0 < h" "k \<le> 48"
  using assms
  by (auto simp: get_suite_params_def digest_length_def split: if_splits)

lemma sha_hash_eq:
  assumes "get_suite_params cs = (alg, h, k)"
  shows "sha_hash P cs messages = Hash P alg (take (CC_LONG_of (length messages)) messages)"
  using assms
  by (auto simp: get_suite_params_def sha_hash_def Hash_def split: if_splits)

lemma Hash_length: "crypto_ok P \<Longrightarrow> length (Hash P alg messages) = digest_length alg"
  by (cases alg) (simp_all add: Hash_def crypto_ok_def digest_length_def)

lemma hkdf_expand_label_eq:
  assumes ok: "crypto_ok P" and h: "hash_len = digest_length alg"
    and fits: "10 + length label + length context \<le> 256"
  shows "hkdf_expand_label P alg hash_len secret label context L
         = Some (HKDF_Expand_Label P alg secret label context L)"
proof -
  have i: "[of_nat (L div 256), of_nat (L mod 256), of_nat (6 + length label)]
             @ bytes_of ''tls13 '' @ bytes_of label
             @ [of_nat (length context)] @ (if length context > 0 then context else [])
           = u16_be L @ [of_nat (length (''tls13 '' @ label))] @ bytes_of (''tls13 '' @ label)
             @ [of_nat (length context)] @ context"
    by (simp add: u16_be_def bytes_of_def)
  have l: "length (u16_be L @ [of_nat (length (''tls13 '' @ label)) :: byte]
             @ bytes_of (''tls13 '' @ label) @ [of_nat (length context)] @ context)
           = 10 + length label + length context"
    by (simp add: u16_be_def bytes_of_def)
  show ?thesis
    unfolding hkdf_expand_label_def Let_def i HKDF_Expand_Label_def
    using fits l hkdf_expand_eq [OF ok h]
    by (simp only: not_less [symmetric] if_False)
qed

lemma derive_secret_eq:
  assumes ok: "crypto_ok P" and sp: "get_suite_params cs = (alg, h, k)"
    and lab: "length label \<le> 100"
  shows "derive_secret P cs alg h secret label messages
         = Some (Derive_Secret P alg h secret label
                   (take (CC_LONG_of (length messages)) messages))"
proof -
  define hashed where "hashed = take (CC_LONG_of (length messages)) messages"
  have sh: "sha_hash P cs messages = Hash P alg hashed"
    unfolding hashed_def by (rule sha_hash_eq [OF sp])
  have hl: "length (Hash P alg hashed) = h"
    using Hash_length [OF ok] suite_params_cases(1) [OF sp] by simp
  have "10 + length label + length (Hash P alg hashed) \<le> 256"
    using hl lab suite_params_cases(2) [OF sp] by simp
  then show ?thesis
    using hkdf_expand_label_eq [OF ok suite_params_cases(1) [OF sp], of label
        "Hash P alg hashed" secret h] hl
    by (simp add: derive_secret_def Derive_Secret_def Let_def sh hashed_def [symmetric])
qed

lemma Derive_Secret_length:
  assumes ok: "crypto_ok P"
  shows "length (Derive_Secret P alg h secret label messages) = h"
  using HKDF_Expand_length [OF ok]
  by (simp add: Derive_Secret_def HKDF_Expand_Label_def)

lemma hkdf_extract_empty:
  "h \<le> 48 \<Longrightarrow> hkdf_extract P alg h [] ikm = HKDF_Extract P alg (replicate h 0) ikm"
  by (simp add: hkdf_extract_def HKDF_Extract_def min_def)

lemma hkdf_extract_salt:
  "salt \<noteq> [] \<Longrightarrow> hkdf_extract P alg h salt ikm = HKDF_Extract P alg salt ikm"
  by (simp add: hkdf_extract_def HKDF_Extract_def)

lemma HKDF_Extract_length:
  "crypto_ok P \<Longrightarrow> length (HKDF_Extract P alg salt ikm) = digest_length alg"
  by (simp add: HKDF_Extract_def crypto_ok_def)

lemma tls13_derive_handshake_keys_eq:
  assumes ok: "crypto_ok P" and sp: "get_suite_params cs = (alg, h, k)"
  shows "tls13_derive_handshake_keys P cs sharedSecret transcript
         = Some (KeySchedule P alg h k sharedSecret
                   (take (CC_LONG_of (length transcript)) transcript))"
proof -
  note sc = suite_params_cases [OF sp]
  define hashed where "hashed = take (CC_LONG_of (length transcript)) transcript"
  define earlySecret where
    "earlySecret = HKDF_Extract P alg (replicate h 0) (replicate h 0)"
  define derivedEarly where "derivedEarly = Derive_Secret P alg h earlySecret ''derived'' []"
  define handshakeSecret where "handshakeSecret = HKDF_Extract P alg derivedEarly sharedSecret"
  define cHS where "cHS = Derive_Secret P alg h handshakeSecret ''c hs traffic'' hashed"
  define sHS where "sHS = Derive_Secret P alg h handshakeSecret ''s hs traffic'' hashed"
  have e1: "hkdf_extract P alg h [] (take h (replicate 48 0)) = earlySecret"
    "hkdf_extract P alg h [] (replicate (min h 48) 0) = earlySecret"
    using sc(2) by (simp_all add: hkdf_extract_empty earlySecret_def min_def)
  have l1: "take h earlySecret = earlySecret"
    using HKDF_Extract_length [OF ok, of alg] sc(1) by (simp add: earlySecret_def)
  have d1: "derive_secret P cs alg h earlySecret ''derived'' [] = Some derivedEarly"
    using derive_secret_eq [OF ok sp, of "''derived''" earlySecret "[]"]
    by (simp add: derivedEarly_def)
  have l2: "take h derivedEarly = derivedEarly" "derivedEarly \<noteq> []"
    using Derive_Secret_length [OF ok, of alg h earlySecret "''derived''" "[]"] sc(3)
    by (auto simp: derivedEarly_def)
  have e2: "hkdf_extract P alg h derivedEarly sharedSecret = handshakeSecret"
    using l2 by (simp add: hkdf_extract_salt handshakeSecret_def)
  have l3: "take h handshakeSecret = handshakeSecret"
    using HKDF_Extract_length [OF ok, of alg] sc(1) by (simp add: handshakeSecret_def)
  have d2: "derive_secret P cs alg h handshakeSecret ''c hs traffic'' transcript = Some cHS"
    using derive_secret_eq [OF ok sp, of "''c hs traffic''" handshakeSecret transcript]
    by (simp add: cHS_def hashed_def)
  have d3: "derive_secret P cs alg h handshakeSecret ''s hs traffic'' transcript = Some sHS"
    using derive_secret_eq [OF ok sp, of "''s hs traffic''" handshakeSecret transcript]
    by (simp add: sHS_def hashed_def)
  have l4: "take h cHS = cHS" "take h sHS = sHS"
    using Derive_Secret_length [OF ok] by (simp_all add: cHS_def sHS_def)
  have x: "\<And>secret label L. length label \<le> 100 \<Longrightarrow>
      hkdf_expand_label P alg h secret label [] L
      = Some (HKDF_Expand_Label P alg secret label [] L)"
    by (rule hkdf_expand_label_eq [OF ok sc(1)]) simp
  have lhs: "tls13_derive_handshake_keys P cs sharedSecret transcript =
      Some \<lparr>hs_secret = handshakeSecret,
            client_key = HKDF_Expand_Label P alg cHS ''key'' [] k,
            client_iv = HKDF_Expand_Label P alg cHS ''iv'' [] 12,
            server_key = HKDF_Expand_Label P alg sHS ''key'' [] k,
            server_iv = HKDF_Expand_Label P alg sHS ''iv'' [] 12,
            client_traffic_secret = cHS\<rparr>"
    unfolding tls13_derive_handshake_keys_def sp
    by (simp add: Let_def e1 l1 d1 l2 e2 l3 d2 d3 l4 x)
  have rhs: "KeySchedule P alg h k sharedSecret hashed =
      \<lparr>hs_secret = handshakeSecret,
       client_key = HKDF_Expand_Label P alg cHS ''key'' [] k,
       client_iv = HKDF_Expand_Label P alg cHS ''iv'' [] 12,
       server_key = HKDF_Expand_Label P alg sHS ''key'' [] k,
       server_iv = HKDF_Expand_Label P alg sHS ''iv'' [] 12,
       client_traffic_secret = cHS\<rparr>"
    unfolding KeySchedule_def
    by (simp add: Let_def earlySecret_def derivedEarly_def handshakeSecret_def cHS_def sHS_def)
  show ?thesis
    unfolding lhs rhs hashed_def [symmetric] ..
qed

lemma KeySchedule_Hash:
  "Hash P alg t = Hash P alg t' \<Longrightarrow>
   KeySchedule P alg h k sharedSecret t = KeySchedule P alg h k sharedSecret t'"
  by (simp add: KeySchedule_def Derive_Secret_def)

lemma KeySchedule_hs_secret_length:
  "crypto_ok P \<Longrightarrow>
   length (hs_secret (KeySchedule P alg h k sharedSecret t)) = digest_length alg"
  by (simp add: KeySchedule_def Let_def HKDF_Extract_length)

lemma long_transcript_hashed:
  "length long_transcript = 4294967297"
  "take (CC_LONG_of (length long_transcript)) long_transcript = [0]"
  "Hash toy_crypto kCCHmacAlgSHA256 long_transcript = Hash toy_crypto kCCHmacAlgSHA256 [5]"
  by (simp_all add: long_transcript_def CC_LONG_of_mod Hash_def toy_crypto_def sum_list_replicate)

lemmas toy_eval = KeySchedule_def Derive_Secret_def HKDF_Expand_Label_def HKDF_Expand_def
  HKDF_Extract_def Hash_def toy_crypto_def digest_length_def u16_be_def bytes_of_def Let_def
  sum_list_replicate

lemma toy_secrets:
  "hs_secret (KeySchedule toy_crypto kCCHmacAlgSHA256 32 16 [1, 2, 3] [4, 5]) = replicate 32 6"
  "hs_secret (KeySchedule toy_crypto kCCHmacAlgSHA384 48 32 [1, 2, 3] [4, 5]) = replicate 48 134"
  "client_traffic_secret (KeySchedule toy_crypto kCCHmacAlgSHA256 32 16 [1, 2, 3] [0])
   = replicate 32 103"
  "client_traffic_secret (KeySchedule toy_crypto kCCHmacAlgSHA256 32 16 [1, 2, 3] [5])
   = replicate 32 7"
  by (simp_all add: toy_eval)

lemma toy_key_schedule:
  "KeySchedule toy_crypto kCCHmacAlgSHA256 32 16 [1, 2, 3] [4, 5]
   = \<lparr>hs_secret = replicate 32 6, client_key = replicate 16 26,
      client_iv = replicate 12 171, server_key = replicate 16 26,
      server_iv = replicate 12 171, client_traffic_secret = replicate 32 135\<rparr>"
  by (simp add: toy_eval)

lemma toy_handshake_keys:
  "tls13_derive_handshake_keys toy_crypto 0x1301 [1, 2, 3] [4, 5]
   = Some \<lparr>hs_secret = replicate 32 6, client_key = replicate 16 26,
            client_iv = replicate 12 171, server_key = replicate 16 26,
            server_iv = replicate 12 171, client_traffic_secret = replicate 32 135\<rparr>"
  by code_simp

lemma suite_1303:
  "get_suite_params 0x1303 = (kCCHmacAlgSHA256, 32, 16)"
  "get_suite_params 0x1301 = (kCCHmacAlgSHA256, 32, 16)"
  "CipherSuiteParams 0x1303 = (kCCHmacAlgSHA384, 48, 32)"
  "CipherSuiteParams 0x1301 = (kCCHmacAlgSHA256, 32, 16)"
  by (simp_all add: get_suite_params_def TLS_AES_256_GCM_SHA384_def CipherSuiteParams_def)

text \<open>
  C2, as stated, with the stand-in primitives. At suite \<open>0x1303\<close>, whose parameters in the
  specification are the SHA-384 ones, the handshake secret returned has 32 bytes and that of the
  composition 48. At suite \<open>0x1301\<close> and a transcript of \<open>2 ^ 32 + 1\<close> bytes, the client
  handshake traffic secret returned is that of the one-byte transcript \<open>[0]\<close>, the first
  \<open>(2 ^ 32 + 1) mod 2 ^ 32\<close> bytes, and differs from that of the composition.
\<close>

theorem tls13_derive_handshake_keys_counterexample:
  "CipherSuiteParams 0x1303 = (kCCHmacAlgSHA384, 48, 32)
   \<and> map_option hs_secret (tls13_derive_handshake_keys toy_crypto 0x1303 [1, 2, 3] [4, 5])
       = Some (replicate 32 6)
   \<and> hs_secret (DeriveHandshakeKeys toy_crypto 0x1303 [1, 2, 3] [4, 5]) = replicate 48 134
   \<and> tls13_derive_handshake_keys toy_crypto 0x1303 [1, 2, 3] [4, 5]
       \<noteq> Some (DeriveHandshakeKeys toy_crypto 0x1303 [1, 2, 3] [4, 5])
   \<and> length long_transcript = 4294967297
   \<and> map_option client_traffic_secret
         (tls13_derive_handshake_keys toy_crypto 0x1301 [1, 2, 3] long_transcript)
       = Some (replicate 32 103)
   \<and> client_traffic_secret (DeriveHandshakeKeys toy_crypto 0x1301 [1, 2, 3] long_transcript)
       = replicate 32 7
   \<and> tls13_derive_handshake_keys toy_crypto 0x1301 [1, 2, 3] long_transcript
       \<noteq> Some (DeriveHandshakeKeys toy_crypto 0x1301 [1, 2, 3] long_transcript)"
proof -
  have a: "tls13_derive_handshake_keys toy_crypto 0x1303 [1, 2, 3] [4, 5]
           = Some (KeySchedule toy_crypto kCCHmacAlgSHA256 32 16 [1, 2, 3] [4, 5])"
    using tls13_derive_handshake_keys_eq [OF toy_crypto_ok suite_1303(1), of "[1, 2, 3]" "[4, 5]"]
    by (simp add: CC_LONG_of_mod)
  have a': "DeriveHandshakeKeys toy_crypto 0x1303 [1, 2, 3] [4, 5]
            = KeySchedule toy_crypto kCCHmacAlgSHA384 48 32 [1, 2, 3] [4, 5]"
    by (simp add: DeriveHandshakeKeys_def suite_1303)
  have b: "tls13_derive_handshake_keys toy_crypto 0x1301 [1, 2, 3] long_transcript
           = Some (KeySchedule toy_crypto kCCHmacAlgSHA256 32 16 [1, 2, 3] [0])"
    using tls13_derive_handshake_keys_eq [OF toy_crypto_ok suite_1303(2), of "[1, 2, 3]"
        long_transcript]
    by (simp only: long_transcript_hashed(2))
  have b': "DeriveHandshakeKeys toy_crypto 0x1301 [1, 2, 3] long_transcript
            = KeySchedule toy_crypto kCCHmacAlgSHA256 32 16 [1, 2, 3] [5]"
    using KeySchedule_Hash [OF long_transcript_hashed(3)]
    by (simp add: DeriveHandshakeKeys_def suite_1303)
  have ne1: "KeySchedule toy_crypto kCCHmacAlgSHA256 32 16 [1, 2, 3] [4, 5]
             \<noteq> KeySchedule toy_crypto kCCHmacAlgSHA384 48 32 [1, 2, 3] [4, 5]"
  proof
    assume "KeySchedule toy_crypto kCCHmacAlgSHA256 32 16 [1, 2, 3] [4, 5]
            = KeySchedule toy_crypto kCCHmacAlgSHA384 48 32 [1, 2, 3] [4, 5]"
    then have "hs_secret (KeySchedule toy_crypto kCCHmacAlgSHA256 32 16 [1, 2, 3] [4, 5])
               = hs_secret (KeySchedule toy_crypto kCCHmacAlgSHA384 48 32 [1, 2, 3] [4, 5])"
      by simp
    then show False
      by (simp only: toy_secrets) simp
  qed
  have ne2: "KeySchedule toy_crypto kCCHmacAlgSHA256 32 16 [1, 2, 3] [0]
             \<noteq> KeySchedule toy_crypto kCCHmacAlgSHA256 32 16 [1, 2, 3] [5]"
  proof
    assume "KeySchedule toy_crypto kCCHmacAlgSHA256 32 16 [1, 2, 3] [0]
            = KeySchedule toy_crypto kCCHmacAlgSHA256 32 16 [1, 2, 3] [5]"
    then have "client_traffic_secret (KeySchedule toy_crypto kCCHmacAlgSHA256 32 16 [1, 2, 3] [0])
               = client_traffic_secret
                   (KeySchedule toy_crypto kCCHmacAlgSHA256 32 16 [1, 2, 3] [5])"
      by simp
    then show False
      by (simp only: toy_secrets) simp
  qed
  show ?thesis
    unfolding a a' b b'
    using ne1 ne2
    by (simp add: suite_1303 toy_secrets long_transcript_hashed(1))
qed

text \<open>
  C2, amended: for every cipher suite, every shared secret and every transcript shorter than
  \<open>2 ^ 32\<close> bytes, \<open>tls13_derive_handshake_keys\<close> returns the composition of the
  specification with the SHA-384 parameters, hashLength 48 and keyLength 32, for suite
  \<open>0x1302\<close>, and with the SHA-256 parameters, hashLength 32 and keyLength 16, for every other
  suite; for the suites \<open>0x1301\<close> and \<open>0x1302\<close> these are the parameters of the
  specification's resolver. The composition: the early secret is HKDF-Extract of a
  zero-filled salt and zero-filled input keying material of \<open>hashLength\<close> bytes; the
  derived secret is Derive-Secret of it with label \<open>derived\<close> and the hash of the empty
  string; the handshake secret is HKDF-Extract with that salt and the shared secret; the
  client and server handshake traffic secrets are Derive-Secret of the handshake secret with
  \<open>c hs traffic\<close> and \<open>s hs traffic\<close> over the transcript; each key is
  HKDF-Expand-Label of its traffic secret with \<open>key\<close>, an empty context and \<open>keyLength\<close>,
  each IV with \<open>iv\<close> and 12, where the info of HKDF-Expand-Label is the length (two bytes,
  big-endian), the length byte and the bytes of \<open>tls13\<close>, a space and the label, and the
  length byte and the bytes of the context. The primitives are any functions with the output
  sizes of the hash.
\<close>

theorem tls13_derive_handshake_keys_composition:
  "crypto_ok P \<and> length transcript < 2 ^ 32 \<longrightarrow>
     tls13_derive_handshake_keys P cs sharedSecret transcript
       = Some (if cs = 0x1302
               then KeySchedule P kCCHmacAlgSHA384 48 32 sharedSecret transcript
               else KeySchedule P kCCHmacAlgSHA256 32 16 sharedSecret transcript)
     \<and> (cs = 0x1301 \<or> cs = 0x1302 \<longrightarrow>
          tls13_derive_handshake_keys P cs sharedSecret transcript
            = Some (DeriveHandshakeKeys P cs sharedSecret transcript))"
proof (intro impI, elim conjE)
  assume ok: "crypto_ok P" and len: "length transcript < 2 ^ 32"
  have t: "take (CC_LONG_of (length transcript)) transcript = transcript"
    using len by (simp add: CC_LONG_of_mod)
  have sp: "get_suite_params cs
            = (if cs = 0x1302 then (kCCHmacAlgSHA384, 48, 32) else (kCCHmacAlgSHA256, 32, 16))"
    by (simp add: get_suite_params_def TLS_AES_256_GCM_SHA384_def)
  have code: "tls13_derive_handshake_keys P cs sharedSecret transcript
       = Some (if cs = 0x1302
               then KeySchedule P kCCHmacAlgSHA384 48 32 sharedSecret transcript
               else KeySchedule P kCCHmacAlgSHA256 32 16 sharedSecret transcript)"
  proof (cases "cs = 0x1302")
    case True
    then show ?thesis
      using tls13_derive_handshake_keys_eq [OF ok, of cs kCCHmacAlgSHA384 48 32 sharedSecret
          transcript] sp t
      by simp
  next
    case False
    then show ?thesis
      using tls13_derive_handshake_keys_eq [OF ok, of cs kCCHmacAlgSHA256 32 16 sharedSecret
          transcript] sp t
      by simp
  qed
  have spec: "cs = 0x1301 \<or> cs = 0x1302 \<Longrightarrow>
      DeriveHandshakeKeys P cs sharedSecret transcript
      = (if cs = 0x1302
         then KeySchedule P kCCHmacAlgSHA384 48 32 sharedSecret transcript
         else KeySchedule P kCCHmacAlgSHA256 32 16 sharedSecret transcript)"
    by (auto simp: DeriveHandshakeKeys_def CipherSuiteParams_def)
  show "tls13_derive_handshake_keys P cs sharedSecret transcript
       = Some (if cs = 0x1302
               then KeySchedule P kCCHmacAlgSHA384 48 32 sharedSecret transcript
               else KeySchedule P kCCHmacAlgSHA256 32 16 sharedSecret transcript)
     \<and> (cs = 0x1301 \<or> cs = 0x1302 \<longrightarrow>
          tls13_derive_handshake_keys P cs sharedSecret transcript
            = Some (DeriveHandshakeKeys P cs sharedSecret transcript))"
    using code spec by simp
qed

theorem tls13_derive_handshake_keys_composition_witness:
  "tls13_derive_handshake_keys toy_crypto 0x1301 [1, 2, 3] [4, 5]
     = Some (KeySchedule toy_crypto kCCHmacAlgSHA256 32 16 [1, 2, 3] [4, 5])
   \<and> tls13_derive_handshake_keys toy_crypto 0x1301 [1, 2, 3] [4, 5]
     = Some (DeriveHandshakeKeys toy_crypto 0x1301 [1, 2, 3] [4, 5])
   \<and> KeySchedule toy_crypto kCCHmacAlgSHA256 32 16 [1, 2, 3] [4, 5]
     = \<lparr>hs_secret = replicate 32 6, client_key = replicate 16 26,
        client_iv = replicate 12 171, server_key = replicate 16 26,
        server_iv = replicate 12 171, client_traffic_secret = replicate 32 135\<rparr>
   \<and> tls13_derive_handshake_keys toy_crypto 0x1301 [1, 2, 3] [4, 5]
     = Some \<lparr>hs_secret = replicate 32 6, client_key = replicate 16 26,
        client_iv = replicate 12 171, server_key = replicate 16 26,
        server_iv = replicate 12 171, client_traffic_secret = replicate 32 135\<rparr>"
  using tls13_derive_handshake_keys_composition [of toy_crypto "[4, 5]" "0x1301" "[1, 2, 3]"]
    toy_crypto_ok toy_handshake_keys toy_key_schedule
  by simp

subsection \<open>Cipher-suite parameters\<close>

text \<open>
  C1, as stated, at the identifier \<open>0x1303\<close>: it is not \<open>0x1301\<close>, and the resolver gives
  it the SHA-256 parameters, not the SHA-384 ones.
\<close>

theorem get_suite_params_other_counterexample:
  "(0x1303 :: u16) \<noteq> 0x1301
   \<and> get_suite_params 0x1303 = (kCCHmacAlgSHA256, 32, 16)
   \<and> get_suite_params 0x1303 \<noteq> (kCCHmacAlgSHA384, 48, 32)"
  by (simp add: get_suite_params_def TLS_AES_256_GCM_SHA384_def)

text \<open>
  C1, amended: identifier \<open>0x1302\<close> yields the SHA-384 parameters with hashLength 48 and
  keyLength 32, and every other identifier, including \<open>0x1301\<close>, yields the SHA-256
  parameters with hashLength 32 and keyLength 16.
\<close>

theorem get_suite_params_cases:
  "(cs = 0x1302 \<longrightarrow> get_suite_params cs = (kCCHmacAlgSHA384, 48, 32))
   \<and> (cs \<noteq> 0x1302 \<longrightarrow> get_suite_params cs = (kCCHmacAlgSHA256, 32, 16))
   \<and> get_suite_params 0x1301 = (kCCHmacAlgSHA256, 32, 16)"
  by (simp add: get_suite_params_def TLS_AES_256_GCM_SHA384_def)

theorem get_suite_params_cases_witness:
  "get_suite_params 0x1302 = (kCCHmacAlgSHA384, 48, 32)
   \<and> get_suite_params 0x0000 = (kCCHmacAlgSHA256, 32, 16)"
  using get_suite_params_cases [of "0x1302"] get_suite_params_cases [of "0x0000"]
  by simp

end
